theory Spec2Isabelle
  imports Complex_Main "HOL-Library.Word"
begin

unbundle bit_operations_syntax

section \<open>Bytes, errors and Python sequence operations\<close>

text \<open>
  A Python \<open>bytes\<close> object is a list of 8-bit words; indexing one gives an integer
  between 0 and 255. Python integers are unbounded: decoded values, sizes and offsets
  are never negative in this program and are natural numbers, arithmetic that
  subtracts is done on \<open>int\<close>.
\<close>

type_synonym byte = "8 word"
type_synonym bytes = "byte list"

text \<open>
  The exceptions the decoders raise: \<open>ValueError\<close> with its message, \<open>struct.error\<close>
  from \<open>struct.unpack\<close> on a buffer of the wrong length, \<open>IndexError\<close> from an index
  out of range, \<open>TypeError\<close> from an operation on operands of the wrong type, and
  \<open>AttributeError\<close> from reading an attribute that was never assigned.
\<close>

datatype error =
    ValueError string
  | StructError
  | IndexError
  | TypeError
  | AttributeError

text \<open>\<open>xs[i]\<close> on a Python sequence: a negative index counts from the end.\<close>

definition py_get :: "'a list \<Rightarrow> int \<Rightarrow> error + 'a" where
  "py_get xs i =
     (if 0 \<le> i \<and> i < int (length xs) then Inr (xs ! nat i)
      else if i < 0 \<and> - int (length xs) \<le> i then Inr (xs ! nat (int (length xs) + i))
      else Inl IndexError)"

text \<open>\<open>xs[i:j]\<close>: both bounds are clamped to the sequence, and the slice never raises.\<close>

definition py_bound :: "nat \<Rightarrow> int \<Rightarrow> nat" where
  "py_bound n i = (if i < 0 then nat (max 0 (int n + i)) else min n (nat i))"

definition py_slice :: "'a list \<Rightarrow> int \<Rightarrow> int \<Rightarrow> 'a list" where
  "py_slice xs i j =
     (let lo = py_bound (length xs) i; hi = py_bound (length xs) j
      in take (hi - lo) (drop lo xs))"

text \<open>\<open>xs[-k:]\<close>, the last \<open>k\<close> elements (all of \<open>xs\<close> when it is shorter).\<close>

definition py_last_n :: "nat \<Rightarrow> 'a list \<Rightarrow> 'a list" where
  "py_last_n k xs = drop (length xs - k) xs"

section \<open>utils.py\<close>

text \<open>The little-endian unsigned value of a byte string.\<close>

fun le_nat :: "bytes \<Rightarrow> nat" where
  "le_nat [] = 0"
| "le_nat (b # bs) = unat b + 256 * le_nat bs"

text \<open>
  The formats \<open>'<H'\<close>, \<open>'<I'\<close> and \<open>'<Q'\<close> of the \<open>struct\<close> module. \<open>struct.unpack\<close>
  raises unless the buffer has exactly \<open>calcsize\<close> bytes.
\<close>

datatype struct_format = Fmt_H | Fmt_I | Fmt_Q

fun calcsize :: "struct_format \<Rightarrow> nat" where
  "calcsize Fmt_H = 2"
| "calcsize Fmt_I = 4"
| "calcsize Fmt_Q = 8"

definition struct_unpack :: "struct_format \<Rightarrow> bytes \<Rightarrow> error + nat" where
  "struct_unpack fmt data =
     (if length data \<noteq> calcsize fmt then Inl StructError else Inr (le_nat data))"

definition uint32 :: "bytes \<Rightarrow> error + nat" where
  "uint32 data =
     (if length data \<noteq> 4
      then Inl (ValueError ''Unable to decode data to uint32. Incorrect size.'')
      else struct_unpack Fmt_I data)"

definition uint64 :: "bytes \<Rightarrow> error + nat" where
  "uint64 data =
     (if length data \<noteq> 8
      then Inl (ValueError ''Unable to decode data to uint64. Incorrect size.'')
      else struct_unpack Fmt_Q data)"

text \<open>
  \<open>varint\<close>, the compact-size decoder. It returns the value and the number of bytes
  it occupies. The test \<open>_sz > 255\<close> and the final \<open>else\<close> of the source are kept,
  although no byte reaches them; their messages are cut before the number they print.
\<close>

definition varint :: "bytes \<Rightarrow> error + (nat \<times> nat)" where
  "varint data =
     (if length data \<le> 0 then Inl (ValueError ''Unable to decode empty data.'')
      else
        let sz = unat (data ! 0) in
        if sz > 255 then Inl (ValueError ''Incorrect data encoding.'')
        else if sz < 253 then Inr (sz, 1)
        else
          (case (if sz = 253 then Inr Fmt_H
                 else if sz = 254 then Inr Fmt_I
                 else if sz = 255 then Inr Fmt_Q
                 else Inl (ValueError ''Unknown format value.'')) of
             Inl e \<Rightarrow> Inl e
           | Inr fmt \<Rightarrow>
               let n = calcsize fmt in
               (case struct_unpack fmt (take n (drop 1 data)) of
                  Inl e \<Rightarrow> Inl e
                | Inr v \<Rightarrow> Inr (v, n + 1))))"

text \<open>\<open>hexstring\<close>: the bytes reversed, then written in lower-case hexadecimal.\<close>

definition hex_digit :: "nat \<Rightarrow> char" where
  "hex_digit n = ''0123456789abcdef'' ! n"

definition hex :: "bytes \<Rightarrow> string" where
  "hex bs = concat (map (\<lambda>b. [hex_digit (unat b div 16), hex_digit (unat b mod 16)]) bs)"

definition hexstring :: "bytes \<Rightarrow> string" where
  "hexstring h = hex (rev h)"

section \<open>index.py\<close>

text \<open>
  \<open>_leveldb_varint\<close>. The body of the \<open>while True\<close> loop reads \<open>raw_data[pos]\<close>,
  which raises \<open>IndexError\<close> once \<open>pos\<close> reaches the end of the buffer, so the loop
  always ends. The accumulator is a Python integer.
\<close>

function leveldb_loop :: "bytes \<Rightarrow> int \<Rightarrow> nat \<Rightarrow> error + (int \<times> nat)" where
  "leveldb_loop raw_data idx pos =
     (if pos \<ge> length raw_data then Inl IndexError
      else
        let data = uint (raw_data ! pos);
            pos' = pos + 1;
            idx' = (push_bit 7 idx) OR (data AND 0x7f)
        in if data AND 0x80 = 0 then Inr (idx', pos')
           else leveldb_loop raw_data (idx' + 1) pos')"
  by pat_completeness auto
termination
  by (relation "measure (\<lambda>(raw_data, idx, pos). length raw_data - pos)") auto

declare leveldb_loop.simps [simp del]

definition leveldb_varint :: "bytes \<Rightarrow> error + (int \<times> nat)" where
  "leveldb_varint raw_data = leveldb_loop raw_data 0 0"

section \<open>script.py\<close>

text \<open>
  An element of \<open>Script.operations\<close> is either a Python \<open>int\<close> or a \<open>bytes\<close> object.
  The integers are the small numbers that \<open>OP_0\<close> and \<open>OP_1\<close> to \<open>OP_16\<close> stand for and
  every other opcode: the library's opcode class \<open>CScriptOp\<close> is a subclass of \<open>int\<close>,
  so \<open>isinstance(op, int)\<close> holds for it and it compares as its number.
\<close>

datatype operation = OpInt int | OpBytes bytes

definition OP_DUP :: int where "OP_DUP = 0x76"
definition OP_HASH160 :: int where "OP_HASH160 = 0xa9"
definition OP_EQUAL :: int where "OP_EQUAL = 0x87"
definition OP_EQUALVERIFY :: int where "OP_EQUALVERIFY = 0x88"
definition OP_CHECKSIG :: int where "OP_CHECKSIG = 0xac"
definition OP_CHECKMULTISIG :: int where "OP_CHECKMULTISIG = 0xae"
definition OP_RETURN :: int where "OP_RETURN = 0x6a"

text \<open>
  Modelled from the spec: the script walker \<open>CScript\<close> of the library
  \<open>bitcoin.core.script\<close>, which script.py imports and src/ does not contain.
  The walk follows the push and opcode rules: a byte above \<open>OP_PUSHDATA4\<close> (0x4e) is a
  single-byte opcode; a byte below \<open>OP_PUSHDATA1\<close> (0x4c) pushes that many bytes;
  \<open>OP_PUSHDATA1\<close>, \<open>OP_PUSHDATA2\<close> and \<open>OP_PUSHDATA4\<close> read a little-endian length of 1,
  2 or 4 bytes and push that many bytes. A push whose length or data is cut short makes
  the whole walk fail (\<open>None\<close>, the library's \<open>CScriptInvalidError\<close>).
  \<open>push_header\<close> gives the number of length bytes and the data size of a push.
\<close>

definition push_header :: "nat \<Rightarrow> bytes \<Rightarrow> (nat \<times> nat) option" where
  "push_header opcode rest =
     (if opcode < 0x4c then Some (0, opcode)
      else if opcode = 0x4c then
        (if length rest < 1 then None else Some (1, le_nat (take 1 rest)))
      else if opcode = 0x4d then
        (if length rest < 2 then None else Some (2, le_nat (take 2 rest)))
      else
        (if length rest < 4 then None else Some (4, le_nat (take 4 rest))))"

text \<open>
  What the iteration yields for an opcode without data: the number for \<open>OP_1\<close> to
  \<open>OP_16\<close> (0x51 to 0x60), the opcode itself otherwise.
\<close>

definition cooked_opcode :: "nat \<Rightarrow> operation" where
  "cooked_opcode opcode =
     (if 0x51 \<le> opcode \<and> opcode \<le> 0x60 then OpInt (int opcode - 0x50)
      else OpInt (int opcode))"

function cscript_ops :: "bytes \<Rightarrow> operation list option" where
  "cscript_ops [] = Some []"
| "cscript_ops (b # rest) =
     (let opcode = unat b in
      if opcode > 0x4e then
        map_option ((#) (cooked_opcode opcode)) (cscript_ops rest)
      else
        (case push_header opcode rest of
           None \<Rightarrow> None
         | Some (k, datasize) \<Rightarrow>
             let data = take datasize (drop k rest) in
             if length data < datasize then None
             else map_option ((#) (if opcode = 0 then OpInt 0 else OpBytes data))
                    (cscript_ops (drop (k + datasize) rest))))"
  by pat_completeness auto
termination
  by (relation "measure length") auto

text \<open>
  Modelled from the spec: the predicates of the same library on the raw script,
  \<open>is_valid\<close> (the walk succeeds), \<open>is_p2sh\<close>, \<open>is_witness_v0_keyhash\<close>,
  \<open>is_witness_v0_scripthash\<close> and \<open>is_unspendable\<close>, by the standard templates.
\<close>

definition cscript_is_valid :: "bytes \<Rightarrow> bool" where
  "cscript_is_valid s = (cscript_ops s \<noteq> None)"

definition cscript_is_p2sh :: "bytes \<Rightarrow> bool" where
  "cscript_is_p2sh s =
     (length s = 23 \<and> uint (s ! 0) = OP_HASH160 \<and> s ! 1 = 0x14 \<and> uint (s ! 22) = OP_EQUAL)"

definition cscript_is_witness_v0_keyhash :: "bytes \<Rightarrow> bool" where
  "cscript_is_witness_v0_keyhash s = (length s = 22 \<and> take 2 s = [0x00, 0x14])"

definition cscript_is_witness_v0_scripthash :: "bytes \<Rightarrow> bool" where
  "cscript_is_witness_v0_scripthash s = (length s = 34 \<and> take 2 s = [0x00, 0x20])"

definition cscript_is_unspendable :: "bytes \<Rightarrow> bool" where
  "cscript_is_unspendable s = (length s > 0 \<and> uint (s ! 0) = OP_RETURN)"

text \<open>\<open>is_public_key\<close>: false on anything that is not \<open>bytes\<close>.\<close>

fun is_public_key :: "operation \<Rightarrow> bool" where
  "is_public_key (OpInt n) = False"
| "is_public_key (OpBytes data) =
     (let uncompressed = (length data = 65 \<and> unat (data ! 0) = 4);
          compressed = (length data = 33 \<and> unat (data ! 0) \<in> set [2, 3])
      in uncompressed \<or> compressed)"

text \<open>The class \<open>Script\<close>: the raw bytes; every other attribute is derived from them.\<close>

record Script =
  script_raw :: bytes

definition Script_from_bytes :: "bytes \<Rightarrow> Script" where
  "Script_from_bytes raw_bytes = \<lparr> script_raw = raw_bytes \<rparr>"

text \<open>\<open>operations\<close>: the walk, or the empty list when the walk fails.\<close>

definition operations :: "Script \<Rightarrow> operation list" where
  "operations s = (case cscript_ops (script_raw s) of None \<Rightarrow> [] | Some ops \<Rightarrow> ops)"

definition is_return :: "Script \<Rightarrow> bool" where
  "is_return s = cscript_is_unspendable (script_raw s)"

definition is_p2sh :: "Script \<Rightarrow> bool" where
  "is_p2sh s = cscript_is_p2sh (script_raw s)"

definition is_p2wsh :: "Script \<Rightarrow> bool" where
  "is_p2wsh s = cscript_is_witness_v0_scripthash (script_raw s)"

definition is_p2wpkh :: "Script \<Rightarrow> bool" where
  "is_p2wpkh s = cscript_is_witness_v0_keyhash (script_raw s)"

text \<open>
  \<open>is_pubkey\<close> and \<open>is_pubkeyhash\<close> evaluate every index expression before they
  combine the results, so an index out of range raises whatever the other tests say.
\<close>

definition is_pubkey :: "Script \<Rightarrow> error + bool" where
  "is_pubkey s =
     (let ops = operations s;
          length_ok = (length ops = 2)
      in case py_get ops (- 1) of Inl e \<Rightarrow> Inl e | Inr op_last \<Rightarrow>
         (case py_get ops 0 of Inl e \<Rightarrow> Inl e | Inr op_first \<Rightarrow>
            Inr (length_ok \<and> op_last = OpInt OP_CHECKSIG \<and> is_public_key op_first)))"

definition is_pubkeyhash :: "Script \<Rightarrow> error + bool" where
  "is_pubkeyhash s =
     (let ops = operations s;
          length_ok = (length (script_raw s) = 25)
      in case py_get ops 0 of Inl e \<Rightarrow> Inl e | Inr op0 \<Rightarrow>
         (case py_get ops 1 of Inl e \<Rightarrow> Inl e | Inr op1 \<Rightarrow>
         (case py_get ops (- 2) of Inl e \<Rightarrow> Inl e | Inr op_verify \<Rightarrow>
         (case py_get ops (- 1) of Inl e \<Rightarrow> Inl e | Inr op_check \<Rightarrow>
            Inr (length_ok \<and> op0 = OpInt OP_DUP \<and> op1 = OpInt OP_HASH160
                 \<and> op_verify = OpInt OP_EQUALVERIFY \<and> op_check = OpInt OP_CHECKSIG)))))"

text \<open>
  The loop \<open>for i in range(_m)\<close> of \<open>is_multisig\<close> over the indices it visits:
  \<open>Inr False\<close> is its \<open>return False\<close>, \<open>Inr True\<close> is the loop running to its end.
\<close>

fun multisig_keys :: "operation list \<Rightarrow> nat list \<Rightarrow> error + bool" where
  "multisig_keys ops [] = Inr True"
| "multisig_keys ops (i # rest) =
     (case py_get ops (1 + int i) of
        Inl e \<Rightarrow> Inl e
      | Inr op \<Rightarrow> if \<not> is_public_key op then Inr False else multisig_keys ops rest)"

text \<open>
  \<open>is_multisig\<close>. The comparison \<open>_n < _m\<close> is evaluated before \<open>_type\<close> is looked at,
  and Python raises \<open>TypeError\<close> when it compares \<open>bytes\<close> with \<open>int\<close>.
\<close>

definition isinstance_int :: "operation \<Rightarrow> bool" where
  "isinstance_int op = (case op of OpInt n \<Rightarrow> True | OpBytes d \<Rightarrow> False)"

definition py_less :: "operation \<Rightarrow> int \<Rightarrow> error + bool" where
  "py_less op m = (case op of OpInt n \<Rightarrow> Inr (n < m) | OpBytes d \<Rightarrow> Inl TypeError)"

definition is_multisig :: "Script \<Rightarrow> error + bool" where
  "is_multisig s =
     (let ops = operations s in
      if length ops < 4 then Inr False
      else
        (case py_get ops 0 of Inl e \<Rightarrow> Inl e
         | Inr (OpBytes d) \<Rightarrow> Inr False
         | Inr (OpInt m) \<Rightarrow>
           (case multisig_keys ops [0..<nat m] of Inl e \<Rightarrow> Inl e
            | Inr False \<Rightarrow> Inr False
            | Inr True \<Rightarrow>
              (case py_get ops (- 2) of Inl e \<Rightarrow> Inl e
               | Inr n \<Rightarrow>
                 let type_ok = isinstance_int n in
                 (case py_less n m of Inl e \<Rightarrow> Inl e
                  | Inr value_less \<Rightarrow>
                    (case py_get ops (- 1) of Inl e \<Rightarrow> Inl e
                     | Inr op_last \<Rightarrow>
                         let op_multi = (op_last \<noteq> OpInt OP_CHECKMULTISIG)
                         in if \<not> type_ok \<or> value_less \<or> op_multi then Inr False
                            else Inr True))))))"

section \<open>address.py\<close>

text \<open>
  SHA-256, RIPEMD-160, base58 and bech32 come from \<open>hashlib\<close> and the bitcoin library;
  they are parameters of the model. \<open>bech32_encode\<close> stands for
  \<open>str(CBech32Data.from_bytes(version, program))\<close>.
\<close>

record primitives =
  sha256 :: "bytes \<Rightarrow> bytes"
  ripemd160 :: "bytes \<Rightarrow> bytes"
  base58_encode :: "bytes \<Rightarrow> string"
  bech32_encode :: "int \<Rightarrow> bytes \<Rightarrow> error + string"

definition hash160 :: "primitives \<Rightarrow> bytes \<Rightarrow> bytes" where
  "hash160 P data = ripemd160 P (sha256 P data)"

definition sha256_2 :: "primitives \<Rightarrow> bytes \<Rightarrow> bytes" where
  "sha256_2 P data = sha256 P (sha256 P data)"

text \<open>
  The class \<open>Address\<close>. The hash and the public key are whatever operation of the
  script the caller passed, or \<open>None\<close>.
\<close>

record Address =
  addr_hash :: "operation option"
  public_key :: "operation option"
  addr_address :: "string option"
  address_type :: string
  segwit_version :: "int option"

definition from_public_key :: "operation \<Rightarrow> Address" where
  "from_public_key pk =
     \<lparr> addr_hash = None, public_key = Some pk, addr_address = None,
       address_type = ''normal'', segwit_version = None \<rparr>"

definition from_hash160 :: "operation \<Rightarrow> string \<Rightarrow> Address" where
  "from_hash160 h t =
     \<lparr> addr_hash = Some h, public_key = None, addr_address = None,
       address_type = t, segwit_version = None \<rparr>"

definition from_bech32 :: "operation \<Rightarrow> int \<Rightarrow> Address" where
  "from_bech32 h v =
     \<lparr> addr_hash = Some h, public_key = None, addr_address = None,
       address_type = ''bech32'', segwit_version = Some v \<rparr>"

text \<open>
  The property \<open>hash\<close>: the HASH160 of the public key when no hash is stored.
  Hashing something that is not \<open>bytes\<close> raises \<open>TypeError\<close>.
\<close>

definition Address_hash :: "primitives \<Rightarrow> Address \<Rightarrow> error + operation option" where
  "Address_hash P a =
     (if public_key a \<noteq> None \<and> addr_hash a = None then
        (case public_key a of
           Some (OpBytes pk) \<Rightarrow> Inr (Some (OpBytes (hash160 P pk)))
         | _ \<Rightarrow> Inl TypeError)
      else Inr (addr_hash a))"

text \<open>The property \<open>address\<close>: base58-check, or bech32 for a witness program.\<close>

definition Address_address :: "primitives \<Rightarrow> Address \<Rightarrow> error + string" where
  "Address_address P a =
     (case addr_address a of
        Some str \<Rightarrow> Inr str
      | None \<Rightarrow>
          if address_type a \<noteq> ''bech32'' then
            let version = (if address_type a = ''normal'' then [0x00] else [0x05]) in
            (case Address_hash P a of
               Inl e \<Rightarrow> Inl e
             | Inr (Some (OpBytes h)) \<Rightarrow>
                 let checksum = sha256_2 P (version @ h)
                 in Inr (base58_encode P (version @ h @ take 4 checksum))
             | Inr _ \<Rightarrow> Inl TypeError)
          else
            (case (segwit_version a, addr_hash a) of
               (Some v, Some (OpBytes h)) \<Rightarrow> bech32_encode P v h
             | _ \<Rightarrow> Inl TypeError))"

section \<open>output.py\<close>

record TxOutput =
  out_script_raw :: bytes
  out_size :: nat
  out_value_raw :: bytes

definition TxOutput_from_bytes :: "bytes \<Rightarrow> error + TxOutput" where
  "TxOutput_from_bytes raw_bytes =
     (case varint (drop 8 raw_bytes) of
        Inl e \<Rightarrow> Inl e
      | Inr (script_length, varint_size) \<Rightarrow>
          let script_start = 8 + varint_size in
          Inr \<lparr> out_script_raw = take script_length (drop script_start raw_bytes),
                out_size = script_start + script_length,
                out_value_raw = take 8 raw_bytes \<rparr>)"

definition TxOutput_value :: "TxOutput \<Rightarrow> error + nat" where
  "TxOutput_value out = uint64 (out_value_raw out)"

definition TxOutput_script :: "TxOutput \<Rightarrow> Script" where
  "TxOutput_script out = Script_from_bytes (out_script_raw out)"

text \<open>\<open>script_type\<close>: the first classifier that answers true names the type.\<close>

definition script_type :: "TxOutput \<Rightarrow> error + string" where
  "script_type out =
     (let script = TxOutput_script out in
      if \<not> cscript_is_valid (script_raw script) then Inr ''invalid''
      else
        (case is_pubkeyhash script of Inl e \<Rightarrow> Inl e
         | Inr True \<Rightarrow> Inr ''pubkeyhash''
         | Inr False \<Rightarrow>
        (case is_pubkey script of Inl e \<Rightarrow> Inl e
         | Inr True \<Rightarrow> Inr ''pubkey''
         | Inr False \<Rightarrow>
        if is_p2sh script then Inr ''p2sh''
        else
        (case is_multisig script of Inl e \<Rightarrow> Inl e
         | Inr True \<Rightarrow> Inr ''multisig''
         | Inr False \<Rightarrow>
        if is_return script then Inr ''OP_RETURN''
        else if is_p2wpkh script then Inr ''p2wpkh''
        else if is_p2wsh script then Inr ''p2wsh''
        else Inr ''unknown''))))"

text \<open>
  \<open>addresses\<close>. For a multisig script the count \<open>n\<close> is the operation before the last
  one, and the slice \<open>operations[1:1+n]\<close> is cut at the end of the list. Adding 1 to
  something that is not an integer raises \<open>TypeError\<close>.
\<close>

definition addresses :: "TxOutput \<Rightarrow> error + Address list" where
  "addresses out =
     (let ops = operations (TxOutput_script out) in
      case script_type out of
        Inl e \<Rightarrow> Inl e
      | Inr t \<Rightarrow>
          if t = ''pubkey'' then
            (case py_get ops 0 of Inl e \<Rightarrow> Inl e
             | Inr op \<Rightarrow> Inr [from_public_key op])
          else if t = ''pubkeyhash'' then
            (case py_get ops 2 of Inl e \<Rightarrow> Inl e
             | Inr op \<Rightarrow> Inr [from_hash160 op ''normal''])
          else if t = ''p2sh'' then
            (case py_get ops 1 of Inl e \<Rightarrow> Inl e
             | Inr op \<Rightarrow> Inr [from_hash160 op ''p2sh''])
          else if t = ''multisig'' then
            (case py_get ops (- 2) of Inl e \<Rightarrow> Inl e
             | Inr (OpBytes d) \<Rightarrow> Inl TypeError
             | Inr (OpInt n) \<Rightarrow> Inr (map from_public_key (py_slice ops 1 (1 + n))))
          else if t = ''p2wpkh'' then
            (case py_get ops 1 of Inl e \<Rightarrow> Inl e
             | Inr op \<Rightarrow> Inr [from_bech32 op 0])
          else if t = ''p2wsh'' then
            (case py_get ops 1 of Inl e \<Rightarrow> Inl e
             | Inr op \<Rightarrow> Inr [from_bech32 op 0])
          else Inr [])"

section \<open>input.py\<close>

record TxInput =
  in_script_length :: nat
  in_script_start :: nat
  in_raw :: bytes
  in_witnesses :: "bytes list"

definition TxInput_size :: "TxInput \<Rightarrow> nat" where
  "TxInput_size inp = in_script_start inp + in_script_length inp + 4"

text \<open>
  \<open>TxInput.__init__\<close>: the script length is read at offset 36, and \<open>raw\<close> is the slice
  \<open>raw_bytes[:size]\<close>, which is shorter than \<open>size\<close> when the buffer is.
\<close>

definition TxInput_from_bytes :: "bytes \<Rightarrow> error + TxInput" where
  "TxInput_from_bytes raw_bytes =
     (case varint (drop 36 raw_bytes) of
        Inl e \<Rightarrow> Inl e
      | Inr (script_length, varint_length) \<Rightarrow>
          let script_start = 36 + varint_length in
          Inr \<lparr> in_script_length = script_length,
                in_script_start = script_start,
                in_raw = take (script_start + script_length + 4) raw_bytes,
                in_witnesses = [] \<rparr>)"

definition add_witness :: "TxInput \<Rightarrow> bytes \<Rightarrow> TxInput" where
  "add_witness inp witness = inp\<lparr> in_witnesses := in_witnesses inp @ [witness] \<rparr>"

section \<open>transaction.py\<close>

record Transaction =
  inputs :: "TxInput list"
  outputs :: "TxOutput list"
  tx_size :: nat
  n_inputs :: nat
  n_outputs :: nat
  is_segwit :: bool
  offset_before_tx_witnesses :: "nat option"
  tx_raw :: bytes

text \<open>
  The loops of \<open>Transaction.__init__\<close>. Each takes the buffer and the current offset
  and returns what it built with the offset after it; an exception of a decoder ends
  the loop.
\<close>

fun read_inputs :: "nat \<Rightarrow> bytes \<Rightarrow> nat \<Rightarrow> TxInput list \<Rightarrow> error + (TxInput list \<times> nat)" where
  "read_inputs 0 raw_data offset acc = Inr (acc, offset)"
| "read_inputs (Suc n) raw_data offset acc =
     (case TxInput_from_bytes (drop offset raw_data) of
        Inl e \<Rightarrow> Inl e
      | Inr inp \<Rightarrow> read_inputs n raw_data (offset + TxInput_size inp) (acc @ [inp]))"

fun read_outputs :: "nat \<Rightarrow> bytes \<Rightarrow> nat \<Rightarrow> TxOutput list \<Rightarrow> error + (TxOutput list \<times> nat)" where
  "read_outputs 0 raw_data offset acc = Inr (acc, offset)"
| "read_outputs (Suc n) raw_data offset acc =
     (case TxOutput_from_bytes (drop offset raw_data) of
        Inl e \<Rightarrow> Inl e
      | Inr out \<Rightarrow> read_outputs n raw_data (offset + out_size out) (acc @ [out]))"

text \<open>The inner witness loop: the items of one input's stack.\<close>

fun read_witness_items :: "nat \<Rightarrow> bytes \<Rightarrow> nat \<Rightarrow> TxInput \<Rightarrow> error + (TxInput \<times> nat)" where
  "read_witness_items 0 raw_data offset inp = Inr (inp, offset)"
| "read_witness_items (Suc n) raw_data offset inp =
     (case varint (drop offset raw_data) of
        Inl e \<Rightarrow> Inl e
      | Inr (component_length, varint_size) \<Rightarrow>
          let offset' = offset + varint_size;
              witness = take component_length (drop offset' raw_data)
          in read_witness_items n raw_data (offset' + component_length)
               (add_witness inp witness))"

text \<open>The outer witness loop: one stack for each input, in order.\<close>

fun read_witnesses :: "TxInput list \<Rightarrow> bytes \<Rightarrow> nat \<Rightarrow> error + (TxInput list \<times> nat)" where
  "read_witnesses [] raw_data offset = Inr ([], offset)"
| "read_witnesses (inp # rest) raw_data offset =
     (case varint (drop offset raw_data) of
        Inl e \<Rightarrow> Inl e
      | Inr (tx_witnesses_n, varint_size) \<Rightarrow>
          (case read_witness_items tx_witnesses_n raw_data (offset + varint_size) inp of
             Inl e \<Rightarrow> Inl e
           | Inr (inp', offset') \<Rightarrow>
               (case read_witnesses rest raw_data offset' of
                  Inl e \<Rightarrow> Inl e
                | Inr (rest', offset'') \<Rightarrow> Inr (inp' # rest', offset''))))"

text \<open>
  \<open>Transaction.__init__\<close> up to the assignment of \<open>self.raw\<close>: the fields, the size
  computed from the declared lengths, and the slice \<open>raw_data[:size]\<close>.
\<close>

definition Transaction_fields :: "bytes \<Rightarrow> error + Transaction" where
  "Transaction_fields raw_data =
     (let offset = 4;
          segwit = (take 2 (drop offset raw_data) = [0x00, 0x01]);
          offset = (if segwit then offset + 2 else offset)
      in case varint (drop offset raw_data) of Inl e \<Rightarrow> Inl e
         | Inr (n_in, varint_size) \<Rightarrow>
        (case read_inputs n_in raw_data (offset + varint_size) [] of Inl e \<Rightarrow> Inl e
         | Inr (ins, offset) \<Rightarrow>
        (case varint (drop offset raw_data) of Inl e \<Rightarrow> Inl e
         | Inr (n_out, varint_size) \<Rightarrow>
        (case read_outputs n_out raw_data (offset + varint_size) [] of Inl e \<Rightarrow> Inl e
         | Inr (outs, offset) \<Rightarrow>
        (case (if segwit then read_witnesses ins raw_data offset else Inr (ins, offset)) of
           Inl e \<Rightarrow> Inl e
         | Inr (ins', offset') \<Rightarrow>
             let size = offset' + 4 in
             Inr \<lparr> inputs = ins', outputs = outs, tx_size = size,
                   n_inputs = n_in, n_outputs = n_out, is_segwit = segwit,
                   offset_before_tx_witnesses = (if segwit then Some offset else None),
                   tx_raw = take size raw_data \<rparr>)))))"

text \<open>The closing test of \<open>__init__\<close>, and \<open>from_bytes\<close>, which only calls it.\<close>

definition Transaction_init :: "bytes \<Rightarrow> error + Transaction" where
  "Transaction_init raw_data =
     (case Transaction_fields raw_data of
        Inl e \<Rightarrow> Inl e
      | Inr tx \<Rightarrow>
          if tx_size tx \<noteq> length (tx_raw tx)
          then Inl (ValueError ''Incomplete transaction.'')
          else Inr tx)"

definition Transaction_from_bytes :: "bytes \<Rightarrow> error + Transaction" where
  "Transaction_from_bytes raw_data = Transaction_init raw_data"

definition version :: "Transaction \<Rightarrow> error + nat" where
  "version tx = uint32 (take 4 (tx_raw tx))"

definition locktime :: "Transaction \<Rightarrow> error + nat" where
  "locktime tx = uint32 (py_last_n 4 (tx_raw tx))"

definition hash :: "primitives \<Rightarrow> Transaction \<Rightarrow> string" where
  "hash P tx = hexstring (sha256_2 P (tx_raw tx))"

text \<open>
  \<open>vsize\<close>. The attribute \<open>_offset_before_tx_witnesses\<close> exists only on a witness
  transaction. Python evaluates \<open>weight / 4\<close> in double precision, where the quotient
  of an integer below \<open>2 ^ 53\<close> by 4 is exact; the model takes the exact quotient.
\<close>

definition vsize :: "Transaction \<Rightarrow> error + int" where
  "vsize tx =
     (if \<not> is_segwit tx then Inr (int (tx_size tx))
      else
        (case offset_before_tx_witnesses tx of
           None \<Rightarrow> Inl AttributeError
         | Some obw \<Rightarrow>
             let wit_sz = int (tx_size tx) - int obw - 4;
                 stripped_sz = int (tx_size tx) - (2 + wit_sz);
                 weight = stripped_sz * 3 + int (tx_size tx)
             in Inr \<lceil>real_of_int weight / 4\<rceil>))"

definition txid :: "primitives \<Rightarrow> Transaction \<Rightarrow> error + string" where
  "txid P tx =
     (if is_segwit tx then
        (case offset_before_tx_witnesses tx of
           None \<Rightarrow> Inl AttributeError
         | Some obw \<Rightarrow>
             let txid_data = take 4 (tx_raw tx)
                           @ py_slice (tx_raw tx) 6 (int obw)
                           @ py_last_n 4 (tx_raw tx)
             in Inr (hexstring (sha256_2 P txid_data)))
      else Inr (hexstring (sha256_2 P (tx_raw tx))))"

section \<open>Vocabulary of the proofs\<close>

text \<open>
  The number of bytes that follow the first byte of a compact size of 3, 5 or 9 bytes.
\<close>

definition wide_len :: "byte \<Rightarrow> nat" where
  "wide_len x = (if unat x = 253 then 2 else if unat x = 254 then 4 else 8)"

text \<open>
  The test \<open>__init__\<close> makes for the witness marker, and the offset at which the input
  count is read.
\<close>

definition witness_flag :: "bytes \<Rightarrow> bool" where
  "witness_flag b = (take 2 (drop 4 b) = [0x00, 0x01])"

definition start_offset :: "bytes \<Rightarrow> nat" where
  "start_offset b = (if witness_flag b then 6 else 4)"

section \<open>Example data\<close>

text \<open>
  A transaction with one input (an empty script) and one output (a script of the single
  byte \<open>OP_RETURN\<close>), in the legacy serialization (61 bytes) and in the witness
  serialization with a stack of one item of two bytes (67 bytes), and the objects
  \<open>Transaction.from_bytes\<close> builds from them.
\<close>

definition example_legacy_tx :: bytes where
  "example_legacy_tx =
     [1, 0, 0, 0] @ [1] @ replicate 32 0 @ [0xff, 0xff, 0xff, 0xff] @ [0]
     @ [0xff, 0xff, 0xff, 0xff] @ [1] @ [0x10, 0x27, 0, 0, 0, 0, 0, 0] @ [1, 0x6a]
     @ [0, 0, 0, 0]"

definition example_witness_tx :: bytes where
  "example_witness_tx =
     [1, 0, 0, 0] @ [0, 1] @ [1] @ replicate 32 0 @ [0xff, 0xff, 0xff, 0xff] @ [0]
     @ [0xff, 0xff, 0xff, 0xff] @ [1] @ [0x10, 0x27, 0, 0, 0, 0, 0, 0] @ [1, 0x6a]
     @ [1, 2, 0xaa, 0xbb] @ [0, 0, 0, 0]"

definition example_input :: TxInput where
  "example_input =
     \<lparr> in_script_length = 0, in_script_start = 37,
       in_raw = replicate 32 0 @ [0xff, 0xff, 0xff, 0xff, 0, 0xff, 0xff, 0xff, 0xff],
       in_witnesses = [] \<rparr>"

definition example_output :: TxOutput where
  "example_output =
     \<lparr> out_script_raw = [0x6a], out_size = 10,
       out_value_raw = [0x10, 0x27, 0, 0, 0, 0, 0, 0] \<rparr>"

definition example_legacy_parsed :: Transaction where
  "example_legacy_parsed =
     \<lparr> inputs = [example_input], outputs = [example_output], tx_size = 61,
       n_inputs = 1, n_outputs = 1, is_segwit = False,
       offset_before_tx_witnesses = None, tx_raw = example_legacy_tx \<rparr>"

definition example_witness_parsed :: Transaction where
  "example_witness_parsed =
     \<lparr> inputs = [example_input\<lparr> in_witnesses := [[0xaa, 0xbb]] \<rparr>],
       outputs = [example_output], tx_size = 67,
       n_inputs = 1, n_outputs = 1, is_segwit = True,
       offset_before_tx_witnesses = Some 59, tx_raw = example_witness_tx \<rparr>"

text \<open>
  Outputs: a 1-of-2 multisig script over two compressed keys; the script
  \<open>OP_0 OP_0 OP_0 OP_CHECKMULTISIG\<close>; and the empty script.
\<close>

definition example_key_a :: bytes where
  "example_key_a = 0x02 # replicate 32 0x11"

definition example_key_b :: bytes where
  "example_key_b = 0x03 # replicate 32 0x22"

definition example_multisig_script :: bytes where
  "example_multisig_script =
     [0x51, 0x21] @ example_key_a @ [0x21] @ example_key_b @ [0x52, 0xae]"

definition example_multisig_output :: TxOutput where
  "example_multisig_output =
     \<lparr> out_script_raw = example_multisig_script, out_size = 80,
       out_value_raw = replicate 8 0 \<rparr>"

definition example_zero_multisig_output :: TxOutput where
  "example_zero_multisig_output =
     \<lparr> out_script_raw = [0x00, 0x00, 0x00, 0xae], out_size = 13,
       out_value_raw = replicate 8 0 \<rparr>"

definition example_empty_output :: TxOutput where
  "example_empty_output =
     \<lparr> out_script_raw = [], out_size = 9, out_value_raw = replicate 8 0 \<rparr>"

section \<open>The compact-size decoder\<close>

lemma le_nat_sum:
  "le_nat bs = (\<Sum>i<length bs. unat (bs ! i) * 256 ^ i)"
proof (induction bs)
  case Nil
  then show ?case by simp
next
  case (Cons b bs)
  have "(\<Sum>i<Suc (length bs). unat ((b # bs) ! i) * 256 ^ i)
        = unat b + (\<Sum>i<length bs. unat (bs ! i) * 256 ^ Suc i)"
    by (subst sum.lessThan_Suc_shift) simp
  also have "\<dots> = unat b + 256 * (\<Sum>i<length bs. unat (bs ! i) * 256 ^ i)"
    by (simp add: sum_distrib_left mult.commute mult.left_commute)
  finally show ?case using Cons.IH by simp
qed

lemma le_nat_field:
  assumes "n + 1 \<le> length data"
  shows "le_nat (take n (drop 1 data)) = (\<Sum>i<n. unat (data ! (1 + i)) * 256 ^ i)"
proof -
  have "length (take n (drop 1 data)) = n" using assms by simp
  then show ?thesis using assms by (simp add: le_nat_sum)
qed

lemma varint_small:
  "data \<noteq> [] \<Longrightarrow> data ! 0 < 0xfd \<Longrightarrow> varint data = Inr (unat (data ! 0), 1)"
  by (simp add: varint_def word_less_nat_alt Let_def)

lemma varint_wide:
  assumes len: "calcsize fmt + 1 \<le> length data"
    and first: "unat (data ! 0) = k" "253 \<le> k"
    and fmt: "(if k = 253 then Inr Fmt_H else if k = 254 then Inr Fmt_I
               else if k = 255 then Inr Fmt_Q else Inl (ValueError ''Unknown format value.'')) = Inr fmt"
  shows "varint data = Inr (\<Sum>i<calcsize fmt. unat (data ! (1 + i)) * 256 ^ i, calcsize fmt + 1)"
proof -
  have ne: "\<not> length data \<le> 0" using len by (cases data) simp_all
  have k: "\<not> k > 255" using first(1) unsigned_less [of "data ! 0", where 'a = nat] by simp
  have sz: "length (take (calcsize fmt) (drop 1 data)) = calcsize fmt" using len by simp
  have "struct_unpack fmt (take (calcsize fmt) (drop 1 data)) = Inr (\<Sum>i<calcsize fmt. unat (data ! (1 + i)) * 256 ^ i)"
    unfolding struct_unpack_def using sz le_nat_field [OF len] by simp
  then show ?thesis
    unfolding varint_def using ne k first fmt by (simp add: Let_def)
qed

lemma varint_fd:
  "3 \<le> length data \<Longrightarrow> data ! 0 = 0xfd \<Longrightarrow>
   varint data = Inr (\<Sum>i<2. unat (data ! (1 + i)) * 256 ^ i, 3)"
  using varint_wide [of Fmt_H data 253] by simp

lemma varint_fe:
  "5 \<le> length data \<Longrightarrow> data ! 0 = 0xfe \<Longrightarrow>
   varint data = Inr (\<Sum>i<4. unat (data ! (1 + i)) * 256 ^ i, 5)"
  using varint_wide [of Fmt_I data 254] by simp

lemma varint_ff:
  "9 \<le> length data \<Longrightarrow> data ! 0 = 0xff \<Longrightarrow>
   varint data = Inr (\<Sum>i<8. unat (data ! (1 + i)) * 256 ^ i, 9)"
  using varint_wide [of Fmt_Q data 255] by simp

text \<open>
  A buffer that is empty, or that ends before the bytes its first byte announces,
  makes \<open>varint\<close> raise.
\<close>

lemma varint_short:
  "varint [] = Inl (ValueError ''Unable to decode empty data.'')"
  "data \<noteq> [] \<Longrightarrow> data ! 0 = 0xfd \<Longrightarrow> length data < 3 \<Longrightarrow> varint data = Inl StructError"
  "data \<noteq> [] \<Longrightarrow> data ! 0 = 0xfe \<Longrightarrow> length data < 5 \<Longrightarrow> varint data = Inl StructError"
  "data \<noteq> [] \<Longrightarrow> data ! 0 = 0xff \<Longrightarrow> length data < 9 \<Longrightarrow> varint data = Inl StructError"
  by (auto simp add: varint_def struct_unpack_def Let_def)

text \<open>
  C3. The compact-size decoder \<open>varint\<close>, on a buffer that holds the bytes its first
  byte \<open>b\<close> announces: for \<open>b < 0xfd\<close> the value is \<open>b\<close> and 1 byte is consumed; for
  \<open>b = 0xfd\<close> the value is the next 2 bytes in little-endian order and 3 bytes are
  consumed; for \<open>b = 0xfe\<close> the next 4 bytes and 5 consumed; for \<open>b = 0xff\<close> the next 8
  bytes and 9 consumed. The value of bytes in little-endian order is written out as
  the sum of byte \<open>i\<close> times \<open>256 ^ i\<close>. The four boundary inputs decode to \<open>(252, 1)\<close>,
  \<open>(253, 3)\<close>, \<open>(65536, 5)\<close> and \<open>(2 ^ 32, 9)\<close>.
\<close>

theorem varint_compact_size:
  "(data \<noteq> [] \<and> data ! 0 < 0xfd \<longrightarrow> varint data = Inr (unat (data ! 0), 1)) \<and>
   (3 \<le> length data \<and> data ! 0 = 0xfd \<longrightarrow>
      varint data = Inr (\<Sum>i<2. unat (data ! (1 + i)) * 256 ^ i, 3)) \<and>
   (5 \<le> length data \<and> data ! 0 = 0xfe \<longrightarrow>
      varint data = Inr (\<Sum>i<4. unat (data ! (1 + i)) * 256 ^ i, 5)) \<and>
   (9 \<le> length data \<and> data ! 0 = 0xff \<longrightarrow>
      varint data = Inr (\<Sum>i<8. unat (data ! (1 + i)) * 256 ^ i, 9)) \<and>
   varint [0xfc] = Inr (252, 1) \<and>
   varint [0xfd, 0xfd, 0x00] = Inr (253, 3) \<and>
   varint [0xfe, 0x00, 0x00, 0x01, 0x00] = Inr (65536, 5) \<and>
   varint [0xff, 0x00, 0x00, 0x00, 0x00, 0x01, 0x00, 0x00, 0x00] = Inr (2 ^ 32, 9)"
proof -
  have small: "data \<noteq> [] \<and> data ! 0 < 0xfd \<longrightarrow> varint data = Inr (unat (data ! 0), 1)"
    by (simp add: varint_small)
  have w2: "3 \<le> length data \<and> data ! 0 = 0xfd \<longrightarrow>
      varint data = Inr (\<Sum>i<2. unat (data ! (1 + i)) * 256 ^ i, 3)"
    using varint_fd [of data] by simp
  have w4: "5 \<le> length data \<and> data ! 0 = 0xfe \<longrightarrow>
      varint data = Inr (\<Sum>i<4. unat (data ! (1 + i)) * 256 ^ i, 5)"
    using varint_fe [of data] by simp
  have w8: "9 \<le> length data \<and> data ! 0 = 0xff \<longrightarrow>
      varint data = Inr (\<Sum>i<8. unat (data ! (1 + i)) * 256 ^ i, 9)"
    using varint_ff [of data] by simp
  have e1: "varint [0xfc] = Inr (252, 1)"
    by (simp add: varint_def)
  have e2: "varint [0xfd, 0xfd, 0x00] = Inr (253, 3)"
    by (simp add: varint_def struct_unpack_def)
  have e3: "varint [0xfe, 0x00, 0x00, 0x01, 0x00] = Inr (65536, 5)"
    by (simp add: varint_def struct_unpack_def)
  have e4: "varint [0xff, 0x00, 0x00, 0x00, 0x00, 0x01, 0x00, 0x00, 0x00] = Inr (2 ^ 32, 9)"
    by (simp add: varint_def struct_unpack_def)
  from small w2 w4 w8 e1 e2 e3 e4 show ?thesis by blast
qed

theorem varint_compact_size_witness:
  "varint [0x10] = Inr (16, 1) \<and>
   varint [0xfd, 0x34, 0x12] = Inr (0x1234, 3) \<and>
   varint [0xfe, 0x78, 0x56, 0x34, 0x12] = Inr (0x12345678, 5) \<and>
   varint [0xff, 0x08, 0x07, 0x06, 0x05, 0x04, 0x03, 0x02, 0x01] = Inr (0x0102030405060708, 9)"
  using varint_compact_size [of "[0x10]"]
    varint_compact_size [of "[0xfd, 0x34, 0x12]"]
    varint_compact_size [of "[0xfe, 0x78, 0x56, 0x34, 0x12]"]
    varint_compact_size [of "[0xff, 0x08, 0x07, 0x06, 0x05, 0x04, 0x03, 0x02, 0x01]"]
  by (simp add: lessThan_nat_numeral lessThan_Suc)

section \<open>The index-db decoder\<close>

lemma high_bit: "(uint (d :: byte) AND 0x80 = 0) \<longleftrightarrow> \<not> bit d 7"
proof -
  have "(uint d AND 2 ^ 7 = 0) \<longleftrightarrow> \<not> bit (uint d) 7"
    by (rule and_exp_eq_0_iff_not_bit)
  then show ?thesis by (simp add: bit_uint_iff)
qed

text \<open>
  The loop from any position: after the bytes \<open>seen\<close>, over bytes \<open>pre\<close> with the
  high bit set and a byte \<open>lst\<close> with the high bit clear.
\<close>

lemma leveldb_loop_run:
  assumes "\<forall>d \<in> set pre. bit d 7" and "\<not> bit lst 7"
  shows "leveldb_loop (seen @ pre @ lst # rest) idx (length seen) =
     Inr (push_bit 7 (foldl (\<lambda>n d. (push_bit 7 n OR (uint d AND 0x7f)) + 1) idx pre)
            OR (uint lst AND 0x7f), length seen + length pre + 1)"
  using assms
proof (induction pre arbitrary: seen idx)
  case Nil
  then show ?case
    by (subst leveldb_loop.simps) (simp add: high_bit)
next
  case (Cons d pre)
  have "leveldb_loop ((seen @ [d]) @ pre @ lst # rest)
          ((push_bit 7 idx OR (uint d AND 0x7f)) + 1) (length (seen @ [d])) =
     Inr (push_bit 7 (foldl (\<lambda>n d. (push_bit 7 n OR (uint d AND 0x7f)) + 1)
                        ((push_bit 7 idx OR (uint d AND 0x7f)) + 1) pre)
            OR (uint lst AND 0x7f), length (seen @ [d]) + length pre + 1)"
    using Cons.prems by (intro Cons.IH) auto
  moreover have "bit d 7" using Cons.prems by simp
  ultimately show ?case
    by (subst leveldb_loop.simps) (simp add: high_bit Let_def nth_append)
qed

text \<open>
  C4. On a buffer that holds a terminated index-db varint, that is bytes \<open>pre\<close> with
  the high bit set followed by a byte \<open>lst\<close> with the high bit clear (and anything
  after it), \<open>_leveldb_varint\<close> returns the value obtained by iterating
  \<open>n := (n << 7) | (d & 0x7f)\<close> over these bytes from \<open>n = 0\<close>, adding 1 to \<open>n\<close> after each
  byte whose high bit is set and stopping at \<open>lst\<close>, together with the number of bytes
  consumed. The bytes \<open>[0xb9, 0x40]\<close> decode to \<open>(7488, 2)\<close>.
\<close>

theorem leveldb_varint_terminated:
  "((\<forall>d \<in> set pre. bit d 7) \<and> \<not> bit lst 7 \<longrightarrow>
      leveldb_varint (pre @ lst # rest) =
        Inr (push_bit 7 (foldl (\<lambda>n d. (push_bit 7 n OR (uint d AND 0x7f)) + 1) 0 pre)
               OR (uint lst AND 0x7f), length pre + 1)) \<and>
   leveldb_varint [0xb9, 0x40] = Inr (7488, 2)"
proof -
  have "leveldb_varint [0xb9, 0x40] = Inr (7488, 2)"
    by (simp add: leveldb_varint_def leveldb_loop.simps)
  moreover have "(\<forall>d \<in> set pre. bit d 7) \<and> \<not> bit lst 7 \<longrightarrow>
      leveldb_varint (pre @ lst # rest) =
        Inr (push_bit 7 (foldl (\<lambda>n d. (push_bit 7 n OR (uint d AND 0x7f)) + 1) 0 pre)
               OR (uint lst AND 0x7f), length pre + 1)"
    using leveldb_loop_run [of pre lst "[]" rest 0] by (simp add: leveldb_varint_def)
  ultimately show ?thesis by blast
qed

theorem leveldb_varint_terminated_witness:
  "leveldb_varint [0x80, 0x80, 0x7f, 0x01] = Inr (16639, 3)"
proof -
  have b: "(\<forall>d \<in> set [0x80, 0x80 :: byte]. bit d 7) \<and> \<not> bit (0x7f :: byte) 7"
    by (simp add: bit_iff_odd)
  have "leveldb_varint ([0x80, 0x80] @ 0x7f # [0x01]) =
          Inr (push_bit 7 (foldl (\<lambda>n d. (push_bit 7 n OR (uint d AND 0x7f)) + 1) 0
                             [0x80, 0x80 :: byte])
                 OR (uint (0x7f :: byte) AND 0x7f), length [0x80, 0x80 :: byte] + 1)"
    by (rule leveldb_varint_terminated [of "[0x80, 0x80]" "0x7f" "[0x01]",
          THEN conjunct1, THEN mp, OF b])
  then show ?thesis by simp
qed

section \<open>Decoders at the end of the buffer\<close>

text \<open>
  \<open>varint\<close> on a non-empty buffer, case by case; what it consumes lies inside the
  buffer; bytes appended to the buffer do not change a result; and the only errors it
  raises are the \<open>ValueError\<close> for an empty buffer and \<open>struct.error\<close>.
\<close>

lemma varint_Cons:
  "varint (x # xs) =
     (if unat x < 253 then Inr (unat x, 1)
      else if length xs < wide_len x then Inl StructError
      else Inr (le_nat (take (wide_len x) xs), wide_len x + 1))"
proof -
  have le: "unat x \<le> 255" using unsigned_less [of x, where 'a = nat] by simp
  consider "unat x < 253" | "unat x = 253" | "unat x = 254" | "unat x = 255"
    using le by linarith
  then show ?thesis
  proof cases
    case 1
    then show ?thesis by (simp add: varint_def)
  next
    case 2
    then show ?thesis by (simp add: varint_def struct_unpack_def wide_len_def)
  next
    case 3
    then show ?thesis by (simp add: varint_def struct_unpack_def wide_len_def)
  next
    case 4
    then show ?thesis by (simp add: varint_def struct_unpack_def wide_len_def)
  qed
qed

lemma varint_consumed:
  assumes "varint d = Inr (v, c)"
  shows "1 \<le> c \<and> c \<le> length d"
proof (cases d)
  case Nil
  then show ?thesis using assms by (simp add: varint_def)
next
  case (Cons x xs)
  then show ?thesis using assms
    by (auto simp add: varint_Cons split: if_splits)
qed

lemma varint_append:
  assumes "varint d = Inr r"
  shows "varint (d @ t) = Inr r"
proof (cases d)
  case Nil
  then show ?thesis using assms by (simp add: varint_def)
next
  case (Cons x xs)
  then show ?thesis using assms
    by (auto simp add: varint_Cons split: if_splits)
qed

lemma varint_drop_append:
  assumes "varint (drop off b) = Inr r"
  shows "varint (drop off (b @ t)) = Inr r"
proof -
  have "drop off b \<noteq> []" using assms by (auto simp add: varint_def)
  then have "off < length b" by simp
  then have "drop off (b @ t) = drop off b @ t" by simp
  then show ?thesis using varint_append [OF assms] by simp
qed

lemma varint_errors:
  assumes "varint d = Inl e"
  shows "e = ValueError ''Unable to decode empty data.'' \<or> e = StructError"
proof (cases d)
  case Nil
  then show ?thesis using assms by (auto simp add: varint_def)
next
  case (Cons x xs)
  then show ?thesis using assms by (auto simp add: varint_Cons split: if_splits)
qed

lemma example_short_varints:
  "varint (drop 36 (replicate 36 0 @ [5])) = Inr (5, 1)"
  "varint (drop 8 (replicate 8 0 @ [5])) = Inr (5, 1)"
  "varint (drop 36 (replicate 36 0)) = Inl (ValueError ''Unable to decode empty data.'')"
  "varint (drop 8 (replicate 8 0 @ [0xfd, 0x01])) = Inl StructError"
  by code_simp+

text \<open>
  C5 as stated fails. An input of 36 zero bytes followed by the script length 5 declares
  46 bytes and has 37; an output of 8 zero bytes followed by the script length 5
  declares 14 bytes and has 9. Both decoders return an object.
\<close>

theorem decode_short_buffer_counterexample:
  "length (replicate 36 0 @ [5 :: byte]) < 36 + 1 + 5 + 4 \<and>
   TxInput_from_bytes (replicate 36 0 @ [5]) =
     Inr \<lparr> in_script_length = 5, in_script_start = 37,
           in_raw = replicate 36 0 @ [5], in_witnesses = [] \<rparr> \<and>
   length (replicate 8 0 @ [5 :: byte]) < 8 + 1 + 5 \<and>
   TxOutput_from_bytes (replicate 8 0 @ [5]) =
     Inr \<lparr> out_script_raw = [], out_size = 14, out_value_raw = replicate 8 0 \<rparr>"
  by code_simp

text \<open>
  C5, amended. On a buffer shorter than the size the record declares, \<open>TxInput.from_bytes\<close>
  and \<open>TxOutput.from_bytes\<close> do not fail when the script length at offset 36 (offset 8
  for an output) can be read: they return an object whose size is the declared
  \<open>36 + varint_size + L + 4\<close> (\<open>8 + varint_size + L\<close>), with the bytes the buffer has.
  They fail exactly when \<open>varint\<close> fails on the length field, with its error: the
  \<open>ValueError\<close> for no byte at that offset, \<open>struct.error\<close> for a length field cut
  short.
\<close>

theorem decode_short_buffer:
  "(\<forall>L vs. varint (drop 36 raw_bytes) = Inr (L, vs) \<and> length raw_bytes < 36 + vs + L + 4 \<longrightarrow>
      (\<exists>inp. TxInput_from_bytes raw_bytes = Inr inp \<and> TxInput_size inp = 36 + vs + L + 4 \<and>
             in_raw inp = raw_bytes)) \<and>
   (\<forall>L vs. varint (drop 8 raw_bytes) = Inr (L, vs) \<and> length raw_bytes < 8 + vs + L \<longrightarrow>
      (\<exists>out. TxOutput_from_bytes raw_bytes = Inr out \<and> out_size out = 8 + vs + L \<and>
             out_script_raw out = drop (8 + vs) raw_bytes)) \<and>
   (\<forall>e. TxInput_from_bytes raw_bytes = Inl e \<longleftrightarrow> varint (drop 36 raw_bytes) = Inl e) \<and>
   (\<forall>e. TxOutput_from_bytes raw_bytes = Inl e \<longleftrightarrow> varint (drop 8 raw_bytes) = Inl e) \<and>
   (\<forall>e. varint (drop 36 raw_bytes) = Inl e \<or> varint (drop 8 raw_bytes) = Inl e \<longrightarrow>
        e = ValueError ''Unable to decode empty data.'' \<or> e = StructError)"
proof -
  have a: "\<exists>inp. TxInput_from_bytes raw_bytes = Inr inp \<and> TxInput_size inp = 36 + vs + L + 4 \<and>
             in_raw inp = raw_bytes"
    if "varint (drop 36 raw_bytes) = Inr (L, vs)" "length raw_bytes < 36 + vs + L + 4" for L vs
    using that by (simp add: TxInput_from_bytes_def TxInput_size_def Let_def)
  have b: "\<exists>out. TxOutput_from_bytes raw_bytes = Inr out \<and> out_size out = 8 + vs + L \<and>
             out_script_raw out = drop (8 + vs) raw_bytes"
    if "varint (drop 8 raw_bytes) = Inr (L, vs)" "length raw_bytes < 8 + vs + L" for L vs
    using that by (simp add: TxOutput_from_bytes_def Let_def)
  have c: "TxInput_from_bytes raw_bytes = Inl e \<longleftrightarrow> varint (drop 36 raw_bytes) = Inl e" for e
    by (simp add: TxInput_from_bytes_def Let_def split: sum.splits prod.splits)
  have d: "TxOutput_from_bytes raw_bytes = Inl e \<longleftrightarrow> varint (drop 8 raw_bytes) = Inl e" for e
    by (simp add: TxOutput_from_bytes_def Let_def split: sum.splits prod.splits)
  have e: "e = ValueError ''Unable to decode empty data.'' \<or> e = StructError"
    if "varint (drop 36 raw_bytes) = Inl e \<or> varint (drop 8 raw_bytes) = Inl e" for e
    using that varint_errors by blast
  from a b c d e show ?thesis by blast
qed

theorem decode_short_buffer_witness:
  "(\<exists>inp. TxInput_from_bytes (replicate 36 0 @ [5]) = Inr inp \<and> TxInput_size inp = 46 \<and>
          in_raw inp = replicate 36 0 @ [5]) \<and>
   (\<exists>out. TxOutput_from_bytes (replicate 8 0 @ [5]) = Inr out \<and> out_size out = 14 \<and>
          out_script_raw out = []) \<and>
   TxInput_from_bytes (replicate 36 0) = Inl (ValueError ''Unable to decode empty data.'') \<and>
   TxOutput_from_bytes (replicate 8 0 @ [0xfd, 0x01]) = Inl StructError"
  using decode_short_buffer [of "replicate 36 0 @ [5]"]
    decode_short_buffer [of "replicate 8 0 @ [5]"]
    decode_short_buffer [of "replicate 36 0"]
    decode_short_buffer [of "replicate 8 0 @ [0xfd, 0x01]"]
    example_short_varints
  by simp

section \<open>Offsets only grow, and bytes after the last offset are not read\<close>

text \<open>
  For each decoder and each loop of \<open>Transaction.__init__\<close>: the offset it returns is
  not below the one it was given, and when that offset lies inside the buffer the
  result is the same on the buffer with more bytes appended.
\<close>

lemma TxInput_from_bytes_append:
  assumes "TxInput_from_bytes (drop off b) = Inr inp"
    and "off + TxInput_size inp \<le> length b"
  shows "TxInput_from_bytes (drop off (b @ t)) = Inr inp"
proof -
  obtain sl vl where v: "varint (drop 36 (drop off b)) = Inr (sl, vl)"
    using assms(1) by (auto simp add: TxInput_from_bytes_def split: sum.splits)
  have inp: "inp = \<lparr> in_script_length = sl, in_script_start = 36 + vl,
                in_raw = take (36 + vl + sl + 4) (drop off b), in_witnesses = [] \<rparr>"
    using assms(1) v by (auto simp add: TxInput_from_bytes_def Let_def)
  have sz: "off + (36 + vl + sl + 4) \<le> length b"
    using assms(2) inp by (simp add: TxInput_size_def)
  have v': "varint (drop 36 (drop off (b @ t))) = Inr (sl, vl)"
    using varint_drop_append [of "36 + off" b "(sl, vl)" t] v by (simp only: drop_drop)
  have "take (36 + vl + sl + 4) (drop off (b @ t)) = take (36 + vl + sl + 4) (drop off b)"
    using sz by simp
  then show ?thesis
    using v' inp by (simp add: TxInput_from_bytes_def Let_def del: drop_append take_append)
qed

lemma TxOutput_from_bytes_append:
  assumes "TxOutput_from_bytes (drop off b) = Inr out"
    and "off + out_size out \<le> length b"
  shows "TxOutput_from_bytes (drop off (b @ t)) = Inr out"
proof -
  obtain sl vs where v: "varint (drop 8 (drop off b)) = Inr (sl, vs)"
    using assms(1) by (auto simp add: TxOutput_from_bytes_def split: sum.splits)
  have out: "out = \<lparr> out_script_raw = take sl (drop (8 + vs) (drop off b)),
                out_size = 8 + vs + sl, out_value_raw = take 8 (drop off b) \<rparr>"
    using assms(1) v by (auto simp add: TxOutput_from_bytes_def Let_def)
  have sz: "off + (8 + vs + sl) \<le> length b"
    using assms(2) out by simp
  have v': "varint (drop 8 (drop off (b @ t))) = Inr (sl, vs)"
    using varint_drop_append [of "8 + off" b "(sl, vs)" t] v by (simp only: drop_drop)
  have "take sl (drop (8 + vs) (drop off (b @ t))) = take sl (drop (8 + vs) (drop off b))"
    using sz by simp
  moreover have "take 8 (drop off (b @ t)) = take 8 (drop off b)"
    using sz by simp
  ultimately show ?thesis
    using v' out by (simp add: TxOutput_from_bytes_def Let_def del: drop_append take_append)
qed

lemma read_inputs_mono:
  "read_inputs n b off acc = Inr (ins, off') \<Longrightarrow> off \<le> off'"
proof (induction n arbitrary: off acc)
  case 0
  then show ?case by simp
next
  case (Suc n)
  then obtain inp where i: "TxInput_from_bytes (drop off b) = Inr inp"
    and r: "read_inputs n b (off + TxInput_size inp) (acc @ [inp]) = Inr (ins, off')"
    by (auto split: sum.splits)
  from Suc.IH [OF r] show ?case by simp
qed

lemma read_inputs_append:
  "read_inputs n b off acc = Inr (ins, off') \<Longrightarrow> off' \<le> length b \<Longrightarrow>
   read_inputs n (b @ t) off acc = Inr (ins, off')"
proof (induction n arbitrary: off acc)
  case 0
  then show ?case by simp
next
  case (Suc n)
  then obtain inp where i: "TxInput_from_bytes (drop off b) = Inr inp"
    and r: "read_inputs n b (off + TxInput_size inp) (acc @ [inp]) = Inr (ins, off')"
    by (auto split: sum.splits)
  have "off + TxInput_size inp \<le> off'" using read_inputs_mono [OF r] .
  then have "off + TxInput_size inp \<le> length b" using Suc.prems(2) by simp
  then have "TxInput_from_bytes (drop off (b @ t)) = Inr inp"
    using TxInput_from_bytes_append [OF i] by simp
  moreover have "read_inputs n (b @ t) (off + TxInput_size inp) (acc @ [inp]) = Inr (ins, off')"
    using Suc.IH [OF r Suc.prems(2)] .
  ultimately show ?case by (simp del: drop_append)
qed

lemma read_outputs_mono:
  "read_outputs n b off acc = Inr (outs, off') \<Longrightarrow> off \<le> off'"
proof (induction n arbitrary: off acc)
  case 0
  then show ?case by simp
next
  case (Suc n)
  then obtain out where i: "TxOutput_from_bytes (drop off b) = Inr out"
    and r: "read_outputs n b (off + out_size out) (acc @ [out]) = Inr (outs, off')"
    by (auto split: sum.splits)
  from Suc.IH [OF r] show ?case by simp
qed

lemma read_outputs_append:
  "read_outputs n b off acc = Inr (outs, off') \<Longrightarrow> off' \<le> length b \<Longrightarrow>
   read_outputs n (b @ t) off acc = Inr (outs, off')"
proof (induction n arbitrary: off acc)
  case 0
  then show ?case by simp
next
  case (Suc n)
  then obtain out where i: "TxOutput_from_bytes (drop off b) = Inr out"
    and r: "read_outputs n b (off + out_size out) (acc @ [out]) = Inr (outs, off')"
    by (auto split: sum.splits)
  have "off + out_size out \<le> off'" using read_outputs_mono [OF r] .
  then have "off + out_size out \<le> length b" using Suc.prems(2) by simp
  then have "TxOutput_from_bytes (drop off (b @ t)) = Inr out"
    using TxOutput_from_bytes_append [OF i] by simp
  moreover have "read_outputs n (b @ t) (off + out_size out) (acc @ [out]) = Inr (outs, off')"
    using Suc.IH [OF r Suc.prems(2)] .
  ultimately show ?case by (simp del: drop_append)
qed

lemma read_witness_items_mono:
  "read_witness_items n b off inp = Inr (inp', off') \<Longrightarrow> off \<le> off'"
proof (induction n arbitrary: off inp)
  case 0
  then show ?case by simp
next
  case (Suc n)
  then obtain cl vs where v: "varint (drop off b) = Inr (cl, vs)"
    and r: "read_witness_items n b (off + vs + cl)
              (add_witness inp (take cl (drop (off + vs) b))) = Inr (inp', off')"
    by (auto simp add: Let_def split: sum.splits)
  from Suc.IH [OF r] show ?case by simp
qed

lemma read_witness_items_append:
  "read_witness_items n b off inp = Inr (inp', off') \<Longrightarrow> off' \<le> length b \<Longrightarrow>
   read_witness_items n (b @ t) off inp = Inr (inp', off')"
proof (induction n arbitrary: off inp)
  case 0
  then show ?case by simp
next
  case (Suc n)
  then obtain cl vs where v: "varint (drop off b) = Inr (cl, vs)"
    and r: "read_witness_items n b (off + vs + cl)
              (add_witness inp (take cl (drop (off + vs) b))) = Inr (inp', off')"
    by (auto simp add: Let_def split: sum.splits)
  have "off + vs + cl \<le> off'" using read_witness_items_mono [OF r] .
  then have le: "off + vs + cl \<le> length b" using Suc.prems(2) by simp
  have v': "varint (drop off (b @ t)) = Inr (cl, vs)"
    using varint_drop_append [OF v] .
  have w: "take cl (drop (off + vs) (b @ t)) = take cl (drop (off + vs) b)"
    using le by simp
  have "read_witness_items n (b @ t) (off + vs + cl)
              (add_witness inp (take cl (drop (off + vs) b))) = Inr (inp', off')"
    using Suc.IH [OF r Suc.prems(2)] .
  then show ?case using v' w by (simp add: Let_def del: drop_append take_append)
qed

lemma read_witnesses_mono:
  "read_witnesses ins b off = Inr (ins', off') \<Longrightarrow> off \<le> off'"
proof (induction ins arbitrary: off ins')
  case Nil
  then show ?case by simp
next
  case (Cons inp rest)
  then obtain n vs inp' off1 rest' where v: "varint (drop off b) = Inr (n, vs)"
    and w: "read_witness_items n b (off + vs) inp = Inr (inp', off1)"
    and r: "read_witnesses rest b off1 = Inr (rest', off')"
    by (auto split: sum.splits)
  have "off + vs \<le> off1" using read_witness_items_mono [OF w] .
  moreover have "off1 \<le> off'" using Cons.IH [OF r] .
  ultimately show ?case by simp
qed

lemma read_witnesses_append:
  "read_witnesses ins b off = Inr (ins', off') \<Longrightarrow> off' \<le> length b \<Longrightarrow>
   read_witnesses ins (b @ t) off = Inr (ins', off')"
proof (induction ins arbitrary: off ins')
  case Nil
  then show ?case by simp
next
  case (Cons inp rest)
  then obtain n vs inp' off1 rest' where v: "varint (drop off b) = Inr (n, vs)"
    and w: "read_witness_items n b (off + vs) inp = Inr (inp', off1)"
    and r: "read_witnesses rest b off1 = Inr (rest', off')"
    and e: "ins' = inp' # rest'"
    by (auto split: sum.splits)
  have "off1 \<le> off'" using read_witnesses_mono [OF r] .
  then have le: "off1 \<le> length b" using Cons.prems(2) by simp
  have v': "varint (drop off (b @ t)) = Inr (n, vs)"
    using varint_drop_append [OF v] .
  have w': "read_witness_items n (b @ t) (off + vs) inp = Inr (inp', off1)"
    using read_witness_items_append [OF w le] .
  have r': "read_witnesses rest (b @ t) off1 = Inr (rest', off')"
    using Cons.IH [OF r Cons.prems(2)] .
  show ?case using v' w' r' e by (simp del: drop_append)
qed

section \<open>Transactions\<close>

text \<open>
  \<open>Transaction.__init__\<close> as a chain of its five steps; the order of the offsets it
  passes through; and its success: the fields were built and the size fits the buffer.
\<close>

lemma Transaction_fields_eq:
  "Transaction_fields b =
     (case varint (drop (start_offset b) b) of Inl e \<Rightarrow> Inl e
      | Inr (n_in, vs1) \<Rightarrow>
     (case read_inputs n_in b (start_offset b + vs1) [] of Inl e \<Rightarrow> Inl e
      | Inr (ins, off2) \<Rightarrow>
     (case varint (drop off2 b) of Inl e \<Rightarrow> Inl e
      | Inr (n_out, vs2) \<Rightarrow>
     (case read_outputs n_out b (off2 + vs2) [] of Inl e \<Rightarrow> Inl e
      | Inr (outs, off3) \<Rightarrow>
     (case (if witness_flag b then read_witnesses ins b off3 else Inr (ins, off3)) of
        Inl e \<Rightarrow> Inl e
      | Inr (ins', off4) \<Rightarrow>
          Inr \<lparr> inputs = ins', outputs = outs, tx_size = off4 + 4,
                n_inputs = n_in, n_outputs = n_out, is_segwit = witness_flag b,
                offset_before_tx_witnesses = (if witness_flag b then Some off3 else None),
                tx_raw = take (off4 + 4) b \<rparr>)))))"
  by (simp add: Transaction_fields_def witness_flag_def start_offset_def Let_def
        split: sum.splits prod.splits)

lemma Transaction_fields_InrE:
  assumes "Transaction_fields b = Inr tx"
  obtains n_in vs1 ins off2 n_out vs2 outs off3 ins' off4 where
    "varint (drop (start_offset b) b) = Inr (n_in, vs1)"
    "read_inputs n_in b (start_offset b + vs1) [] = Inr (ins, off2)"
    "varint (drop off2 b) = Inr (n_out, vs2)"
    "read_outputs n_out b (off2 + vs2) [] = Inr (outs, off3)"
    "(if witness_flag b then read_witnesses ins b off3 else Inr (ins, off3)) = Inr (ins', off4)"
    "tx = \<lparr> inputs = ins', outputs = outs, tx_size = off4 + 4,
                n_inputs = n_in, n_outputs = n_out, is_segwit = witness_flag b,
                offset_before_tx_witnesses = (if witness_flag b then Some off3 else None),
                tx_raw = take (off4 + 4) b \<rparr>"
  using assms unfolding Transaction_fields_eq
  by (auto split: sum.splits prod.splits)

lemma Transaction_fields_offsets:
  assumes "Transaction_fields b = Inr tx"
  shows "start_offset b + 2 \<le> tx_size tx - 4 \<and> 4 \<le> tx_size tx \<and> is_segwit tx = witness_flag b \<and>
         tx_raw tx = take (tx_size tx) b \<and>
         (witness_flag b \<longrightarrow> (\<exists>obw. offset_before_tx_witnesses tx = Some obw \<and>
                                start_offset b + 2 \<le> obw \<and> obw + 4 \<le> tx_size tx)) \<and>
         (\<not> witness_flag b \<longrightarrow> offset_before_tx_witnesses tx = None)"
proof -
  from assms obtain n_in vs1 ins off2 n_out vs2 outs off3 ins' off4 where
    v1: "varint (drop (start_offset b) b) = Inr (n_in, vs1)" and
    r1: "read_inputs n_in b (start_offset b + vs1) [] = Inr (ins, off2)" and
    v2: "varint (drop off2 b) = Inr (n_out, vs2)" and
    r2: "read_outputs n_out b (off2 + vs2) [] = Inr (outs, off3)" and
    w: "(if witness_flag b then read_witnesses ins b off3 else Inr (ins, off3)) = Inr (ins', off4)" and
    tx: "tx = \<lparr> inputs = ins', outputs = outs, tx_size = off4 + 4,
                n_inputs = n_in, n_outputs = n_out, is_segwit = witness_flag b,
                offset_before_tx_witnesses = (if witness_flag b then Some off3 else None),
                tx_raw = take (off4 + 4) b \<rparr>"
    by (rule Transaction_fields_InrE)
  have a: "1 \<le> vs1" using varint_consumed [OF v1] by simp
  have b: "start_offset b + vs1 \<le> off2" using read_inputs_mono [OF r1] .
  have c: "1 \<le> vs2" using varint_consumed [OF v2] by simp
  have d: "off2 + vs2 \<le> off3" using read_outputs_mono [OF r2] .
  have e: "off3 \<le> off4"
  proof (cases "witness_flag b")
    case True
    then show ?thesis using w read_witnesses_mono [of ins b off3 ins' off4] by simp
  next
    case False
    then show ?thesis using w by simp
  qed
  from a b c d e show ?thesis unfolding tx by auto
qed

lemma witness_flag_append:
  "6 \<le> length b \<Longrightarrow> witness_flag (b @ t) = witness_flag b"
  by (simp add: witness_flag_def)

lemma Transaction_fields_append:
  assumes "Transaction_fields b = Inr tx" and len: "tx_size tx \<le> length b"
  shows "Transaction_fields (b @ t) = Inr tx"
proof -
  from assms(1) obtain n_in vs1 ins off2 n_out vs2 outs off3 ins' off4 where
    v1: "varint (drop (start_offset b) b) = Inr (n_in, vs1)" and
    r1: "read_inputs n_in b (start_offset b + vs1) [] = Inr (ins, off2)" and
    v2: "varint (drop off2 b) = Inr (n_out, vs2)" and
    r2: "read_outputs n_out b (off2 + vs2) [] = Inr (outs, off3)" and
    w: "(if witness_flag b then read_witnesses ins b off3 else Inr (ins, off3)) = Inr (ins', off4)" and
    tx: "tx = \<lparr> inputs = ins', outputs = outs, tx_size = off4 + 4,
                n_inputs = n_in, n_outputs = n_out, is_segwit = witness_flag b,
                offset_before_tx_witnesses = (if witness_flag b then Some off3 else None),
                tx_raw = take (off4 + 4) b \<rparr>"
    by (rule Transaction_fields_InrE)
  have sz: "off4 + 4 \<le> length b" using len tx by simp
  have a: "1 \<le> vs1" using varint_consumed [OF v1] by simp
  have b: "start_offset b + vs1 \<le> off2" using read_inputs_mono [OF r1] .
  have c: "1 \<le> vs2" using varint_consumed [OF v2] by simp
  have d: "off2 + vs2 \<le> off3" using read_outputs_mono [OF r2] .
  have e: "off3 \<le> off4"
  proof (cases "witness_flag b")
    case True
    then show ?thesis using w read_witnesses_mono [of ins b off3 ins' off4] by simp
  next
    case False
    then show ?thesis using w by simp
  qed
  have "4 \<le> start_offset b" by (simp add: start_offset_def)
  then have "6 \<le> length b" using a b c d e sz by linarith
  then have m: "witness_flag (b @ t) = witness_flag b" by (rule witness_flag_append)
  then have s: "start_offset (b @ t) = start_offset b" by (simp add: start_offset_def)
  have v1': "varint (drop (start_offset b) (b @ t)) = Inr (n_in, vs1)"
    using varint_drop_append [OF v1] .
  have "off2 \<le> length b" using c d e sz by linarith
  then have r1': "read_inputs n_in (b @ t) (start_offset b + vs1) [] = Inr (ins, off2)"
    using read_inputs_append [OF r1] by simp
  have v2': "varint (drop off2 (b @ t)) = Inr (n_out, vs2)"
    using varint_drop_append [OF v2] .
  have "off3 \<le> length b" using e sz by linarith
  then have r2': "read_outputs n_out (b @ t) (off2 + vs2) [] = Inr (outs, off3)"
    using read_outputs_append [OF r2] by simp
  have "off4 \<le> length b" using sz by linarith
  then have w': "(if witness_flag b then read_witnesses ins (b @ t) off3 else Inr (ins, off3))
                  = Inr (ins', off4)"
    using w read_witnesses_append [of ins b off3 ins' off4 t] by (simp split: if_splits)
  have raw: "take (off4 + 4) (b @ t) = take (off4 + 4) b" using sz by simp
  show ?thesis
    unfolding Transaction_fields_eq m s
    using v1' r1' v2' r2' w' raw tx by (simp del: drop_append take_append)
qed

lemma Transaction_init_Inr:
  "Transaction_init b = Inr tx \<longleftrightarrow>
     Transaction_fields b = Inr tx \<and> tx_size tx \<le> length b"
proof
  assume a: "Transaction_init b = Inr tx"
  then have f: "Transaction_fields b = Inr tx" and l: "tx_size tx = length (tx_raw tx)"
    by (auto simp add: Transaction_init_def split: sum.splits if_splits)
  have "tx_raw tx = take (tx_size tx) b" using Transaction_fields_offsets [OF f] by simp
  then have "tx_size tx \<le> length b" using l by (metis length_take min.cobounded1 min.commute)
  then show "Transaction_fields b = Inr tx \<and> tx_size tx \<le> length b" using f by simp
next
  assume a: "Transaction_fields b = Inr tx \<and> tx_size tx \<le> length b"
  then have "tx_raw tx = take (tx_size tx) b" using Transaction_fields_offsets [of b tx] by simp
  then have "length (tx_raw tx) = tx_size tx" using a by simp
  then show "Transaction_init b = Inr tx" using a by (simp add: Transaction_init_def)
qed

lemma Transaction_from_bytes_Inr:
  "Transaction_from_bytes b = Inr tx \<longleftrightarrow>
     Transaction_fields b = Inr tx \<and> tx_size tx \<le> length b"
  by (simp add: Transaction_from_bytes_def Transaction_init_Inr)

lemma example_legacy_tx_parsed:
  "Transaction_from_bytes example_legacy_tx = Inr example_legacy_parsed"
  by code_simp

lemma example_witness_tx_parsed:
  "Transaction_from_bytes example_witness_tx = Inr example_witness_parsed"
  by code_simp

lemma example_legacy_tx_cut:
  "Transaction_fields (take 60 example_legacy_tx) =
     Inr (example_legacy_parsed\<lparr> tx_raw := take 60 example_legacy_tx \<rparr>)"
  by code_simp

lemma Transaction_fields_Nil:
  "Transaction_fields [] = Inl (ValueError ''Unable to decode empty data.'')"
  by code_simp

text \<open>
  C6. When \<open>Transaction.__init__\<close> has computed the size from the declared lengths and
  the buffer is shorter than that size, \<open>Transaction.from_bytes\<close> raises
  \<open>ValueError('Incomplete transaction.')\<close>; when a decoder raised before the size was
  computed, it raises that error. When it succeeds, \<open>raw\<close> is the first \<open>size\<close> bytes of
  the buffer, \<open>raw\<close> has \<open>size\<close> bytes, and the buffer has at least as many.
\<close>

theorem Transaction_from_bytes_size:
  "(\<forall>tx0. Transaction_fields raw_data = Inr tx0 \<and> length raw_data < tx_size tx0 \<longrightarrow>
       Transaction_from_bytes raw_data = Inl (ValueError ''Incomplete transaction.'')) \<and>
   (\<forall>e. Transaction_fields raw_data = Inl e \<longrightarrow> Transaction_from_bytes raw_data = Inl e) \<and>
   (\<forall>tx. Transaction_from_bytes raw_data = Inr tx \<longrightarrow>
       tx_raw tx = take (tx_size tx) raw_data \<and> length (tx_raw tx) = tx_size tx \<and>
       tx_size tx \<le> length raw_data)"
proof -
  have a: "Transaction_from_bytes raw_data = Inl (ValueError ''Incomplete transaction.'')"
    if "Transaction_fields raw_data = Inr tx0" "length raw_data < tx_size tx0" for tx0
  proof -
    have "tx_raw tx0 = take (tx_size tx0) raw_data" using Transaction_fields_offsets [OF that(1)] by simp
    then have "length (tx_raw tx0) \<noteq> tx_size tx0" using that(2) by simp
    then show ?thesis using that(1) by (simp add: Transaction_from_bytes_def Transaction_init_def)
  qed
  have b: "Transaction_from_bytes raw_data = Inl e" if "Transaction_fields raw_data = Inl e" for e
    using that by (simp add: Transaction_from_bytes_def Transaction_init_def)
  have c: "tx_raw tx = take (tx_size tx) raw_data \<and> length (tx_raw tx) = tx_size tx \<and>
       tx_size tx \<le> length raw_data" if "Transaction_from_bytes raw_data = Inr tx" for tx
  proof -
    from that have f: "Transaction_fields raw_data = Inr tx" and l: "tx_size tx \<le> length raw_data"
      by (simp_all add: Transaction_from_bytes_Inr)
    have "tx_raw tx = take (tx_size tx) raw_data" using Transaction_fields_offsets [OF f] by simp
    then show ?thesis using l by simp
  qed
  from a b c show ?thesis by blast
qed

theorem Transaction_from_bytes_size_witness:
  "Transaction_from_bytes (take 60 example_legacy_tx) = Inl (ValueError ''Incomplete transaction.'') \<and>
   Transaction_from_bytes [] = Inl (ValueError ''Unable to decode empty data.'') \<and>
   tx_raw example_legacy_parsed = take 61 example_legacy_tx \<and>
   length (tx_raw example_legacy_parsed) = 61 \<and> 61 \<le> length example_legacy_tx"
proof -
  have l: "length (take 60 example_legacy_tx) < tx_size (example_legacy_parsed\<lparr> tx_raw := take 60 example_legacy_tx \<rparr>)"
    by (simp add: example_legacy_parsed_def example_legacy_tx_def)
  show ?thesis
    using Transaction_from_bytes_size [of "take 60 example_legacy_tx"] example_legacy_tx_cut l
      Transaction_from_bytes_size [of "[]"] Transaction_fields_Nil
      Transaction_from_bytes_size [of example_legacy_tx] example_legacy_tx_parsed
    by (simp add: example_legacy_parsed_def)
qed

text \<open>
  C1. For every buffer that parses as a transaction: \<open>raw\<close> has \<open>size\<close> bytes; when
  \<open>is_segwit\<close> holds, the offset before the witnesses \<open>obw\<close> lies between 6 and
  \<open>size - 4\<close>, and \<open>txid\<close> is the hexadecimal form of the reversed double SHA-256 of
  \<open>raw[0..4]\<close>, then \<open>raw[6..obw]\<close>, then the last 4 bytes \<open>raw[size-4..size]\<close>; when
  \<open>is_segwit\<close> does not hold, \<open>txid\<close> equals \<open>hash\<close>, the hash of the full serialization.
\<close>

theorem txid_serialization:
  assumes "Transaction_from_bytes raw_data = Inr tx"
  shows "length (tx_raw tx) = tx_size tx \<and>
    (is_segwit tx \<longrightarrow>
       (\<exists>obw. offset_before_tx_witnesses tx = Some obw \<and> 6 \<le> obw \<and> obw + 4 \<le> tx_size tx \<and>
          txid P tx = Inr (hex (rev (sha256 P (sha256 P
            (take 4 (tx_raw tx) @ take (obw - 6) (drop 6 (tx_raw tx))
               @ drop (tx_size tx - 4) (tx_raw tx)))))))) \<and>
    (\<not> is_segwit tx \<longrightarrow>
       txid P tx = Inr (hash P tx) \<and> hash P tx = hex (rev (sha256 P (sha256 P (tx_raw tx)))))"
proof -
  from assms have f: "Transaction_fields raw_data = Inr tx" and l: "tx_size tx \<le> length raw_data"
    by (simp_all add: Transaction_from_bytes_Inr)
  note o = Transaction_fields_offsets [OF f]
  have len: "length (tx_raw tx) = tx_size tx" using o l by simp
  have seg: "is_segwit tx \<longrightarrow>
       (\<exists>obw. offset_before_tx_witnesses tx = Some obw \<and> 6 \<le> obw \<and> obw + 4 \<le> tx_size tx \<and>
          txid P tx = Inr (hex (rev (sha256 P (sha256 P
            (take 4 (tx_raw tx) @ take (obw - 6) (drop 6 (tx_raw tx))
               @ drop (tx_size tx - 4) (tx_raw tx)))))))"
  proof
    assume s: "is_segwit tx"
    then obtain obw where obw: "offset_before_tx_witnesses tx = Some obw"
      "start_offset raw_data + 2 \<le> obw" "obw + 4 \<le> tx_size tx"
      using o by auto
    have six: "6 \<le> obw" using obw(2) by (simp add: start_offset_def split: if_splits)
    have "py_slice (tx_raw tx) 6 (int obw) = take (obw - 6) (drop 6 (tx_raw tx))"
      using six obw(3) len by (simp add: py_slice_def py_bound_def Let_def min_def)
    then have "txid P tx = Inr (hex (rev (sha256 P (sha256 P
            (take 4 (tx_raw tx) @ take (obw - 6) (drop 6 (tx_raw tx))
               @ drop (tx_size tx - 4) (tx_raw tx))))))"
      using s obw(1) len by (simp add: txid_def hexstring_def sha256_2_def py_last_n_def)
    then show "\<exists>obw. offset_before_tx_witnesses tx = Some obw \<and> 6 \<le> obw \<and> obw + 4 \<le> tx_size tx \<and>
          txid P tx = Inr (hex (rev (sha256 P (sha256 P
            (take 4 (tx_raw tx) @ take (obw - 6) (drop 6 (tx_raw tx))
               @ drop (tx_size tx - 4) (tx_raw tx))))))"
      using obw(1,3) six by blast
  qed
  have leg: "\<not> is_segwit tx \<longrightarrow>
       txid P tx = Inr (hash P tx) \<and> hash P tx = hex (rev (sha256 P (sha256 P (tx_raw tx))))"
    by (simp add: txid_def hash_def hexstring_def sha256_2_def)
  from len seg leg show ?thesis by blast
qed

theorem txid_serialization_witness:
  "\<forall>P. txid P example_witness_parsed =
          Inr (hex (rev (sha256 P (sha256 P
            (take 4 example_witness_tx @ take 53 (drop 6 example_witness_tx)
               @ drop 63 example_witness_tx))))) \<and>
        txid P example_legacy_parsed = Inr (hash P example_legacy_parsed)"
proof
  fix P
  show "txid P example_witness_parsed =
          Inr (hex (rev (sha256 P (sha256 P
            (take 4 example_witness_tx @ take 53 (drop 6 example_witness_tx)
               @ drop 63 example_witness_tx))))) \<and>
        txid P example_legacy_parsed = Inr (hash P example_legacy_parsed)"
    using txid_serialization [OF example_witness_tx_parsed, of P]
      txid_serialization [OF example_legacy_tx_parsed, of P]
    by (simp add: example_witness_parsed_def example_legacy_parsed_def)
qed

text \<open>
  C2. For every buffer that parses as a transaction, \<open>vsize\<close> is the ceiling of
  \<open>(stripped * 3 + size) / 4\<close>: for a witness transaction with
  \<open>stripped = size - 2 - witness_bytes\<close> and \<open>witness_bytes = size - obw - 4\<close>, which is
  not negative; for any other transaction with \<open>stripped = size\<close>, so that \<open>vsize\<close> is
  \<open>size\<close>.
\<close>

theorem vsize_formula:
  assumes "Transaction_from_bytes raw_data = Inr tx"
  shows "(\<not> is_segwit tx \<longrightarrow>
            vsize tx = Inr \<lceil>real_of_int (int (tx_size tx) * 3 + int (tx_size tx)) / 4\<rceil> \<and>
            vsize tx = Inr (int (tx_size tx))) \<and>
         (is_segwit tx \<longrightarrow>
            (\<exists>obw. offset_before_tx_witnesses tx = Some obw \<and> obw + 4 \<le> tx_size tx \<and>
               (let witness_bytes = int (tx_size tx) - int obw - 4;
                    stripped = int (tx_size tx) - 2 - witness_bytes
                in vsize tx = Inr \<lceil>real_of_int (stripped * 3 + int (tx_size tx)) / 4\<rceil>)))"
proof -
  from assms have f: "Transaction_fields raw_data = Inr tx"
    by (simp add: Transaction_from_bytes_Inr)
  note o = Transaction_fields_offsets [OF f]
  have "\<lceil>real_of_int (int (tx_size tx) * 3 + int (tx_size tx)) / 4\<rceil> = int (tx_size tx)"
    by (simp add: ceiling_divide_eq_div)
  moreover have "\<not> is_segwit tx \<longrightarrow> vsize tx = Inr (int (tx_size tx))"
    by (simp add: vsize_def)
  ultimately have leg: "\<not> is_segwit tx \<longrightarrow>
            vsize tx = Inr \<lceil>real_of_int (int (tx_size tx) * 3 + int (tx_size tx)) / 4\<rceil> \<and>
            vsize tx = Inr (int (tx_size tx))"
    by presburger
  have seg: "is_segwit tx \<longrightarrow>
            (\<exists>obw. offset_before_tx_witnesses tx = Some obw \<and> obw + 4 \<le> tx_size tx \<and>
               (let witness_bytes = int (tx_size tx) - int obw - 4;
                    stripped = int (tx_size tx) - 2 - witness_bytes
                in vsize tx = Inr \<lceil>real_of_int (stripped * 3 + int (tx_size tx)) / 4\<rceil>))"
  proof
    assume s: "is_segwit tx"
    then obtain obw where obw: "offset_before_tx_witnesses tx = Some obw" "obw + 4 \<le> tx_size tx"
      using o by auto
    have "vsize tx = Inr \<lceil>real_of_int ((int (tx_size tx) - 2 - (int (tx_size tx) - int obw - 4)) * 3
              + int (tx_size tx)) / 4\<rceil>"
      using s obw(1) by (simp add: vsize_def Let_def algebra_simps)
    then show "\<exists>obw. offset_before_tx_witnesses tx = Some obw \<and> obw + 4 \<le> tx_size tx \<and>
               (let witness_bytes = int (tx_size tx) - int obw - 4;
                    stripped = int (tx_size tx) - 2 - witness_bytes
                in vsize tx = Inr \<lceil>real_of_int (stripped * 3 + int (tx_size tx)) / 4\<rceil>)"
      using obw unfolding Let_def by blast
  qed
  from leg seg show ?thesis by blast
qed

theorem vsize_formula_witness:
  "vsize example_witness_parsed = Inr 63 \<and> vsize example_legacy_parsed = Inr 61"
  using vsize_formula [OF example_witness_tx_parsed] vsize_formula [OF example_legacy_tx_parsed]
  by (simp add: example_witness_parsed_def example_legacy_parsed_def)

text \<open>
  C10. When a buffer \<open>b\<close> parses as a transaction, every extension \<open>b @ t\<close> parses to the
  same object: the same size, raw bytes, version, locktime, txid, hash, vsize, inputs,
  outputs and witnesses.
\<close>

theorem Transaction_from_bytes_prefix:
  assumes "Transaction_from_bytes b = Inr tx"
  shows "\<exists>tx'. Transaction_from_bytes (b @ t) = Inr tx' \<and> tx' = tx \<and>
           tx_size tx' = tx_size tx \<and> tx_raw tx' = tx_raw tx \<and>
           version tx' = version tx \<and> locktime tx' = locktime tx \<and>
           txid P tx' = txid P tx \<and> hash P tx' = hash P tx \<and> vsize tx' = vsize tx \<and>
           inputs tx' = inputs tx \<and> outputs tx' = outputs tx \<and>
           map in_witnesses (inputs tx') = map in_witnesses (inputs tx)"
proof -
  from assms have "Transaction_fields b = Inr tx" "tx_size tx \<le> length b"
    by (simp_all add: Transaction_from_bytes_Inr)
  then have "Transaction_fields (b @ t) = Inr tx" by (rule Transaction_fields_append)
  moreover have "tx_size tx \<le> length (b @ t)" using \<open>tx_size tx \<le> length b\<close> by simp
  ultimately have "Transaction_from_bytes (b @ t) = Inr tx"
    by (simp only: Transaction_from_bytes_Inr)
  then show ?thesis by simp
qed

theorem Transaction_from_bytes_prefix_witness:
  "Transaction_from_bytes (example_witness_tx @ [0xde, 0xad, 0xbe, 0xef]) = Inr example_witness_parsed"
  using Transaction_from_bytes_prefix [OF example_witness_tx_parsed, of "[0xde, 0xad, 0xbe, 0xef]"]
  by simp

section \<open>Scripts with fewer than two operations\<close>

lemma py_get_nth: "i < length xs \<Longrightarrow> py_get xs (int i) = Inr (xs ! i)"
  by (simp add: py_get_def)

lemma py_get_beyond: "length xs \<le> i \<Longrightarrow> py_get xs (int i) = Inl IndexError"
  by (simp add: py_get_def)

lemma py_get_from_end:
  "0 < k \<Longrightarrow> k \<le> length xs \<Longrightarrow> py_get xs (- int k) = Inr (xs ! (length xs - k))"
  by (simp add: py_get_def nat_diff_distrib')

lemma py_get_Nil: "py_get [] i = Inl IndexError"
  by (simp add: py_get_def)

lemma is_pubkeyhash_short:
  assumes "length (operations s) < 2"
  shows "is_pubkeyhash s = Inl IndexError"
proof (cases "operations s")
  case Nil
  then show ?thesis by (simp add: is_pubkeyhash_def py_get_Nil)
next
  case (Cons x xs)
  then have l: "length (operations s) = 1" using assms by simp
  have "py_get (operations s) 0 = Inr x" using py_get_nth [of 0 "operations s"] Cons by simp
  moreover have "py_get (operations s) 1 = Inl IndexError"
    using py_get_beyond [of "operations s" 1] l by simp
  ultimately show ?thesis by (simp add: is_pubkeyhash_def)
qed

lemma is_pubkey_empty:
  assumes "operations s = []"
  shows "is_pubkey s = Inl IndexError"
  using assms by (simp add: is_pubkey_def py_get_Nil)

lemma example_empty_output_decoded:
  "TxOutput_from_bytes (replicate 8 0 @ [0]) = Inr example_empty_output"
  by code_simp

lemma example_empty_output_valid:
  "cscript_is_valid (out_script_raw example_empty_output)"
  "length (operations (TxOutput_script example_empty_output)) < 2"
  by code_simp+

lemma example_empty_output_ops:
  "operations (TxOutput_script example_empty_output) = []"
  by code_simp

text \<open>
  C9. For every output whose script is valid and has fewer than 2 operations,
  \<open>is_pubkeyhash\<close> raises \<open>IndexError\<close>, and so does \<open>script_type\<close>, which calls it
  first: it does not return \<open>'unknown'\<close>. The output with the empty script, decoded
  from 8 value bytes and the length 0, is one.
\<close>

theorem script_type_short:
  assumes "cscript_is_valid (out_script_raw out)"
    and "length (operations (TxOutput_script out)) < 2"
  shows "script_type out = Inl IndexError \<and>
         is_pubkeyhash (TxOutput_script out) = Inl IndexError \<and>
         (operations (TxOutput_script out) = [] \<longrightarrow>
            is_pubkey (TxOutput_script out) = Inl IndexError)"
  using assms is_pubkeyhash_short [of "TxOutput_script out"]
    is_pubkey_empty [of "TxOutput_script out"]
  by (simp add: script_type_def TxOutput_script_def Script_from_bytes_def)

theorem script_type_short_witness:
  "TxOutput_from_bytes (replicate 8 0 @ [0]) = Inr example_empty_output \<and>
   script_type example_empty_output = Inl IndexError \<and>
   is_pubkeyhash (TxOutput_script example_empty_output) = Inl IndexError \<and>
   is_pubkey (TxOutput_script example_empty_output) = Inl IndexError"
  using script_type_short [OF example_empty_output_valid] example_empty_output_decoded
    example_empty_output_ops
  by simp

section \<open>Multisig scripts\<close>

text \<open>
  The key loop runs to its end exactly when every index it visits is in range and holds
  a public key. When the operation before the last is an integer, that is the same as
  all of the slice \<open>operations[1:1+M]\<close> being public keys.
\<close>

lemma multisig_keys_True:
  "multisig_keys ops idxs = Inr True \<longleftrightarrow>
     (\<forall>i \<in> set idxs. 1 + i < length ops \<and> is_public_key (ops ! (1 + i)))"
proof (induction idxs)
  case Nil
  then show ?case by simp
next
  case (Cons i idxs)
  show ?case
  proof (cases "1 + i < length ops")
    case True
    then have "py_get ops (1 + int i) = Inr (ops ! (1 + i))"
      using py_get_nth [of "1 + i" ops] by simp
    then show ?thesis using Cons.IH True by simp
  next
    case False
    then have "py_get ops (1 + int i) = Inl IndexError"
      using py_get_beyond [of ops "1 + i"] by simp
    then show ?thesis using False by simp
  qed
qed

lemma is_multisig_core:
  "is_multisig s = Inr True \<longleftrightarrow>
     (let ops = operations s in
      4 \<le> length ops \<and>
      (\<exists>M N. ops ! 0 = OpInt M \<and>
         (\<forall>i < nat M. 1 + i < length ops \<and> is_public_key (ops ! (1 + i))) \<and>
         ops ! (length ops - 2) = OpInt N \<and> M \<le> N) \<and>
      ops ! (length ops - 1) = OpInt OP_CHECKMULTISIG)"
proof (cases "length (operations s) < 4")
  case True
  then show ?thesis by (simp add: is_multisig_def Let_def)
next
  case False
  then have len: "4 \<le> length (operations s)" by simp
  have g0: "py_get (operations s) 0 = Inr (operations s ! 0)"
    using py_get_nth [of 0 "operations s"] len by (cases "operations s") simp_all
  have g2: "py_get (operations s) (- 2) = Inr (operations s ! (length (operations s) - 2))"
    using py_get_from_end [of 2 "operations s"] len by simp
  have g1: "py_get (operations s) (- 1) = Inr (operations s ! (length (operations s) - 1))"
    using py_get_from_end [of 1 "operations s"] len by simp
  show ?thesis
  proof (cases "operations s ! 0")
    case (OpBytes d)
    then show ?thesis using len g0 by (simp add: is_multisig_def Let_def)
  next
    case (OpInt m)
    note m = this
    show ?thesis
    proof (cases "multisig_keys (operations s) [0..<nat m]")
      case (Inl e)
      then have "\<not> (\<forall>i < nat m. 1 + i < length (operations s) \<and> is_public_key (operations s ! (1 + i)))"
        using multisig_keys_True [of "operations s" "[0..<nat m]"] by auto
      then show ?thesis using len g0 m Inl by (simp add: is_multisig_def Let_def)
    next
      case (Inr r)
      show ?thesis
      proof (cases r)
        case False
        then have "\<not> (\<forall>i < nat m. 1 + i < length (operations s) \<and> is_public_key (operations s ! (1 + i)))"
          using multisig_keys_True [of "operations s" "[0..<nat m]"] Inr by auto
        then show ?thesis using len g0 m Inr False by (simp add: is_multisig_def Let_def)
      next
        case True
        then have k: "\<forall>i < nat m. 1 + i < length (operations s) \<and> is_public_key (operations s ! (1 + i))"
          using multisig_keys_True [of "operations s" "[0..<nat m]"] Inr by auto
        show ?thesis
        proof (cases "operations s ! (length (operations s) - 2)")
          case (OpBytes d)
          then show ?thesis using len g0 g2 m Inr True
            by (simp add: is_multisig_def Let_def py_less_def)
        next
          case (OpInt n)
          then show ?thesis using len g0 g2 g1 m Inr True k
            by (auto simp add: is_multisig_def Let_def py_less_def isinstance_int_def)
        qed
      qed
    qed
  qed
qed

lemma is_public_key_iff:
  "is_public_key op \<longleftrightarrow>
     (\<exists>d. op = OpBytes d \<and>
        (length d = 33 \<and> (d ! 0 = 2 \<or> d ! 0 = 3) \<or> length d = 65 \<and> d ! 0 = 4))"
proof (cases op)
  case (OpInt n)
  then show ?thesis by simp
next
  case (OpBytes d)
  have "unat (d ! 0) = 4 \<longleftrightarrow> d ! 0 = 4" "unat (d ! 0) = 2 \<longleftrightarrow> d ! 0 = 2"
    "unat (d ! 0) = 3 \<longleftrightarrow> d ! 0 = 3"
    by (simp_all add: word_unat_eq_iff)
  then show ?thesis using OpBytes by auto
qed

lemma keys_slice:
  assumes len: "4 \<le> length ops" and n: "ops ! (length ops - 2) = OpInt N"
  shows "(\<forall>i < m. 1 + i < length ops \<and> is_public_key (ops ! (1 + i))) \<longleftrightarrow>
         (\<forall>op \<in> set (take m (drop 1 ops)). is_public_key op)"
proof
  assume a: "\<forall>i < m. 1 + i < length ops \<and> is_public_key (ops ! (1 + i))"
  show "\<forall>op \<in> set (take m (drop 1 ops)). is_public_key op"
  proof
    fix op assume "op \<in> set (take m (drop 1 ops))"
    then obtain j where j: "j < length (take m (drop 1 ops))" "op = take m (drop 1 ops) ! j"
      by (auto simp add: in_set_conv_nth)
    then have "j < m" "1 + j < length ops" by auto
    then have "op = ops ! (1 + j)" using j by simp
    then show "is_public_key op" using a \<open>j < m\<close> by simp
  qed
next
  assume a: "\<forall>op \<in> set (take m (drop 1 ops)). is_public_key op"
  have m: "m + 3 \<le> length ops"
  proof (rule ccontr)
    assume "\<not> m + 3 \<le> length ops"
    then have j: "length ops - 3 < length (take m (drop 1 ops))" using len by auto
    have "take m (drop 1 ops) ! (length ops - 3) = ops ! (1 + (length ops - 3))"
      using j len by simp
    also have "1 + (length ops - 3) = length ops - 2" using len by simp
    finally have "take m (drop 1 ops) ! (length ops - 3) = OpInt N" using n by simp
    then have "OpInt N \<in> set (take m (drop 1 ops))" using j by (metis nth_mem)
    then show False using a by auto
  qed
  show "\<forall>i < m. 1 + i < length ops \<and> is_public_key (ops ! (1 + i))"
  proof (intro allI impI)
    fix i assume i: "i < m"
    then have l: "1 + i < length ops" using m by simp
    have "i < length (take m (drop 1 ops))" using i m by simp
    then have "take m (drop 1 ops) ! i \<in> set (take m (drop 1 ops))" by (rule nth_mem)
    moreover have "take m (drop 1 ops) ! i = ops ! (1 + i)" using i l by simp
    ultimately show "1 + i < length ops \<and> is_public_key (ops ! (1 + i))" using a l by auto
  qed
qed

lemma example_multisig_ops:
  "operations (TxOutput_script example_multisig_output) =
     [OpInt 1, OpBytes example_key_a, OpBytes example_key_b, OpInt 2, OpInt OP_CHECKMULTISIG]"
  by code_simp

lemma example_multisig_type: "script_type example_multisig_output = Inr ''multisig''"
  by code_simp

lemma example_multisig_addresses:
  "addresses example_multisig_output =
     Inr [from_public_key (OpBytes example_key_a), from_public_key (OpBytes example_key_b)]"
  by code_simp

lemma example_zero_multisig: 
  "script_type example_zero_multisig_output = Inr ''multisig''"
  "addresses example_zero_multisig_output = Inr []"
  by code_simp+

text \<open>
  C7. \<open>is_multisig\<close> returns \<open>True\<close> if and only if the operations list has at least 4
  elements, its first element is an integer \<open>M\<close>, every operation in the slots
  \<open>1..1+M\<close> is a byte push of 33 bytes starting with 0x02 or 0x03 or of 65 bytes starting
  with 0x04, the element before the last is an integer \<open>N\<close> with \<open>N \<ge> M\<close>, and the last
  element is \<open>OP_CHECKMULTISIG\<close>. In every other case it returns \<open>False\<close> or raises.
\<close>

theorem is_multisig_iff:
  "is_multisig s = Inr True \<longleftrightarrow>
     (let ops = operations s in
      4 \<le> length ops \<and>
      (\<exists>M N. ops ! 0 = OpInt M \<and>
         (\<forall>op \<in> set (take (nat M) (drop 1 ops)).
            \<exists>d. op = OpBytes d \<and>
              (length d = 33 \<and> (d ! 0 = 2 \<or> d ! 0 = 3) \<or> length d = 65 \<and> d ! 0 = 4)) \<and>
         ops ! (length ops - 2) = OpInt N \<and> M \<le> N) \<and>
      ops ! (length ops - 1) = OpInt OP_CHECKMULTISIG)"
proof -
  have "(\<exists>M N. operations s ! 0 = OpInt M \<and>
         (\<forall>i < nat M. 1 + i < length (operations s) \<and> is_public_key (operations s ! (1 + i))) \<and>
         operations s ! (length (operations s) - 2) = OpInt N \<and> M \<le> N) \<longleftrightarrow>
        (\<exists>M N. operations s ! 0 = OpInt M \<and>
         (\<forall>op \<in> set (take (nat M) (drop 1 (operations s))). is_public_key op) \<and>
         operations s ! (length (operations s) - 2) = OpInt N \<and> M \<le> N)"
    if "4 \<le> length (operations s)"
    using keys_slice [OF that] by blast
  then show ?thesis
    unfolding is_multisig_core Let_def is_public_key_iff [symmetric] by blast
qed

theorem is_multisig_iff_witness:
  "is_multisig (TxOutput_script example_multisig_output) = Inr True"
proof -
  have k: "length example_key_a = 33" "example_key_a ! 0 = 2"
    by (simp_all add: example_key_a_def)
  show ?thesis
    using is_multisig_iff [of "TxOutput_script example_multisig_output"] k
    by (simp add: example_multisig_ops OP_CHECKMULTISIG_def)
qed

text \<open>
  Where the conditions of a multisig script fail, \<open>is_multisig\<close> may raise instead of
  returning \<open>False\<close>: \<open>OP_1 <key> <key> OP_CHECKMULTISIG\<close> compares a key with an
  integer, and \<open>OP_5 <key> <key> <key>\<close> runs the key loop past the end of the list.
\<close>

lemma is_multisig_raises:
  "is_multisig \<lparr> script_raw = [0x51, 0x21] @ example_key_a @ [0x21] @ example_key_b @ [0xae] \<rparr>
     = Inl TypeError"
  "is_multisig \<lparr> script_raw = [0x55, 0x21] @ example_key_a @ [0x21] @ example_key_b
                              @ [0x21] @ example_key_a \<rparr>
     = Inl IndexError"
  by code_simp+

section \<open>Addresses of a multisig output\<close>

text \<open>
  The integers of an operations list are not negative; an output of type
  \<open>'multisig'\<close> passed \<open>is_multisig\<close>; the slice \<open>xs[1:1+n]\<close>; and the address string
  of a public key.
\<close>

lemma cooked_opcode_nonneg: "cooked_opcode k = OpInt n \<Longrightarrow> 0 \<le> n"
  by (auto simp add: cooked_opcode_def split: if_splits)

lemma cscript_ops_nonneg:
  "cscript_ops raw = Some ops \<Longrightarrow> OpInt n \<in> set ops \<Longrightarrow> 0 \<le> n"
proof (induction raw arbitrary: ops rule: cscript_ops.induct)
  case 1
  then show ?case by simp
next
  case (2 b rest)
  show ?case
  proof (cases "unat b > 0x4e")
    case True
    then obtain tl where tl: "cscript_ops rest = Some tl" "ops = cooked_opcode (unat b) # tl"
      using "2.prems"(1) by (auto simp add: Let_def)
    show ?thesis
    proof (cases "OpInt n \<in> set tl")
      case True
      then show ?thesis using "2.IH"(1) [OF refl _ tl(1)] \<open>unat b > 0x4e\<close> by simp
    next
      case False
      then have "cooked_opcode (unat b) = OpInt n" using "2.prems"(2) tl(2) by simp
      then show ?thesis by (rule cooked_opcode_nonneg)
    qed
  next
    case False
    then obtain k datasize tl where
      h: "push_header (unat b) rest = Some (k, datasize)" and
      l: "\<not> length (take datasize (drop k rest)) < datasize" and
      tl: "cscript_ops (drop (k + datasize) rest) = Some tl" and
      o: "ops = (if unat b = 0 then OpInt 0 else OpBytes (take datasize (drop k rest))) # tl"
      using "2.prems"(1) by (auto simp add: Let_def split: option.splits if_splits)
    show ?thesis
    proof (cases "OpInt n \<in> set tl")
      case True
      then show ?thesis
        using "2.IH"(2) [OF refl False h refl refl l tl] by simp
    next
      case False
      then have "n = 0" using "2.prems"(2) o by (auto split: if_splits)
      then show ?thesis by simp
    qed
  qed
qed

lemma operations_nonneg:
  assumes "OpInt n \<in> set (operations s)"
  shows "0 \<le> n"
proof (cases "cscript_ops (script_raw s)")
  case None
  then show ?thesis using assms by (simp add: operations_def)
next
  case (Some ops)
  then have "OpInt n \<in> set ops" using assms by (simp add: operations_def)
  then show ?thesis using cscript_ops_nonneg [OF Some] by simp
qed

lemma script_type_multisig:
  assumes "script_type out = Inr ''multisig''"
  shows "is_multisig (TxOutput_script out) = Inr True"
  using assms
  by (auto simp add: script_type_def Let_def split: if_splits sum.splits bool.splits)

lemma py_slice_from_one:
  assumes "0 \<le> n" and "1 \<le> length xs"
  shows "py_slice xs 1 (1 + n) = take (nat n) (drop 1 xs)"
proof -
  have "py_bound (length xs) 1 = 1" using assms(2) by (simp add: py_bound_def)
  moreover have "py_bound (length xs) (1 + n) = min (length xs) (1 + nat n)"
    using assms(1) by (simp add: py_bound_def nat_add_distrib)
  ultimately have "py_slice xs 1 (1 + n) = take (min (length xs) (1 + nat n) - 1) (drop 1 xs)"
    by (simp add: py_slice_def)
  also have "\<dots> = take (nat n) (drop 1 xs)"
    by (cases "1 + nat n \<le> length xs") (simp_all add: min_def)
  finally show ?thesis .
qed

lemma Address_address_from_public_key:
  "Address_address P (from_public_key (OpBytes pk)) =
     Inr (base58_encode P ([0x00] @ hash160 P pk @ take 4 (sha256_2 P ([0x00] @ hash160 P pk))))"
  by (simp add: Address_address_def Address_hash_def from_public_key_def Let_def)

lemma example_multisig_decoded:
  "TxOutput_from_bytes (replicate 8 0 @ [71] @ example_multisig_script)
     = Inr example_multisig_output"
  "TxOutput_from_bytes (replicate 8 0 @ [4, 0x00, 0x00, 0x00, 0xae])
     = Inr example_zero_multisig_output"
  by code_simp+

text \<open>
  C8 as stated fails. The 1-of-2 multisig output has \<open>M = 1\<close>, one public key in the
  slots \<open>1..1+M\<close>, and two addresses, one for each of its \<open>N = 2\<close> keys. The output with
  the script \<open>OP_0 OP_0 OP_0 OP_CHECKMULTISIG\<close> is classified as multisig and has no
  address.
\<close>

theorem multisig_addresses_counterexample:
  "TxOutput_from_bytes (replicate 8 0 @ [71] @ example_multisig_script)
     = Inr example_multisig_output \<and>
   script_type example_multisig_output = Inr ''multisig'' \<and>
   operations (TxOutput_script example_multisig_output) ! 0 = OpInt 1 \<and>
   take 1 (drop 1 (operations (TxOutput_script example_multisig_output)))
     = [OpBytes example_key_a] \<and>
   addresses example_multisig_output =
     Inr [from_public_key (OpBytes example_key_a), from_public_key (OpBytes example_key_b)] \<and>
   addresses example_multisig_output \<noteq> Inr [from_public_key (OpBytes example_key_a)] \<and>
   TxOutput_from_bytes (replicate 8 0 @ [4, 0x00, 0x00, 0x00, 0xae])
     = Inr example_zero_multisig_output \<and>
   script_type example_zero_multisig_output = Inr ''multisig'' \<and>
   addresses example_zero_multisig_output = Inr []"
  using example_multisig_decoded
  by (simp add: example_multisig_type example_multisig_ops example_multisig_addresses
      example_zero_multisig)

text \<open>
  C8, amended. For every output classified as multisig, with \<open>M\<close> the integer at
  operation slot 0 and \<open>N\<close> the integer at the slot before the last (\<open>0 \<le> M \<le> N\<close>),
  the addresses list has exactly one address for each operation in the slots
  \<open>1..1+N\<close>, cut at the end of the list, each built by \<open>Address.from_public_key\<close>. The
  first \<open>M\<close> of them are over public keys, and their string is the base58 encoding of
  the version byte 0x00, the HASH160 of the key and the first 4 bytes of the double
  SHA-256 of both. The list has at least \<open>M\<close> entries and is empty exactly when \<open>N = 0\<close>.
\<close>

theorem multisig_addresses:
  assumes "script_type out = Inr ''multisig''"
  shows "\<exists>M N. let ops = operations (TxOutput_script out) in
           4 \<le> length ops \<and> ops ! 0 = OpInt M \<and> ops ! (length ops - 2) = OpInt N \<and>
           0 \<le> M \<and> M \<le> N \<and>
           addresses out = Inr (map from_public_key (take (nat N) (drop 1 ops))) \<and>
           (\<forall>i < nat M. \<exists>pk. ops ! (1 + i) = OpBytes pk \<and> is_public_key (OpBytes pk) \<and>
              Address_address P (from_public_key (ops ! (1 + i))) =
                Inr (base58_encode P
                       ([0x00] @ hash160 P pk @ take 4 (sha256_2 P ([0x00] @ hash160 P pk))))) \<and>
           nat M \<le> length (take (nat N) (drop 1 ops)) \<and>
           (take (nat N) (drop 1 ops) = [] \<longleftrightarrow> N = 0)"
proof -
  define ops where "ops = operations (TxOutput_script out)"
  have m: "is_multisig (TxOutput_script out) = Inr True"
    using assms by (rule script_type_multisig)
  then obtain M N where len: "4 \<le> length ops" and M: "ops ! 0 = OpInt M"
    and keys: "\<forall>i < nat M. 1 + i < length ops \<and> is_public_key (ops ! (1 + i))"
    and N: "ops ! (length ops - 2) = OpInt N" and MN: "M \<le> N"
    unfolding is_multisig_core Let_def ops_def by blast
  have "OpInt M \<in> set ops" using M len by (metis nth_mem less_le_trans zero_less_numeral)
  then have M0: "0 \<le> M" unfolding ops_def by (rule operations_nonneg)
  then have N0: "0 \<le> N" using MN by simp
  have g: "py_get ops (- 2) = Inr (OpInt N)"
    using py_get_from_end [of 2 ops] len N by simp
  have sl: "py_slice ops 1 (1 + N) = take (nat N) (drop 1 ops)"
  proof -
    have "1 \<le> length ops" using len by linarith
    with N0 show ?thesis by (rule py_slice_from_one)
  qed
  have a: "addresses out = Inr (map from_public_key (take (nat N) (drop 1 ops)))"
    using assms g sl by (simp add: addresses_def ops_def [symmetric])
  have k: "\<exists>pk. ops ! (1 + i) = OpBytes pk \<and> is_public_key (OpBytes pk) \<and>
              Address_address P (from_public_key (ops ! (1 + i))) =
                Inr (base58_encode P
                       ([0x00] @ hash160 P pk @ take 4 (sha256_2 P ([0x00] @ hash160 P pk))))"
    if "i < nat M" for i
  proof -
    have pk: "is_public_key (ops ! (1 + i))" using keys that by simp
    then obtain pk where "ops ! (1 + i) = OpBytes pk" by (cases "ops ! (1 + i)") simp_all
    then show ?thesis using pk Address_address_from_public_key [of P pk] by simp
  qed
  have "nat M \<le> length ops - 1"
  proof (cases "nat M")
    case 0
    then show ?thesis by simp
  next
    case (Suc j)
    then have "1 + j < length ops" using keys by simp
    then show ?thesis using Suc by simp
  qed
  then have c: "nat M \<le> length (take (nat N) (drop 1 ops))" using MN by simp
  have e: "take (nat N) (drop 1 ops) = [] \<longleftrightarrow> N = 0"
    using N0 len by auto
  from len M N M0 MN a k c e show ?thesis
    unfolding Let_def ops_def [symmetric] by blast
qed

theorem multisig_addresses_witness:
  "\<forall>P. addresses example_multisig_output =
          Inr (map from_public_key [OpBytes example_key_a, OpBytes example_key_b]) \<and>
        Address_address P (from_public_key (OpBytes example_key_a)) =
          Inr (base58_encode P ([0x00] @ hash160 P example_key_a
                 @ take 4 (sha256_2 P ([0x00] @ hash160 P example_key_a))))"
proof
  fix P
  from multisig_addresses [OF example_multisig_type, of P]
  obtain M N where
    M: "OpInt 1 = OpInt M" and N: "OpInt 2 = OpInt N" and
    a: "addresses example_multisig_output =
          Inr (map from_public_key (take (nat N)
                 [OpBytes example_key_a, OpBytes example_key_b, OpInt 2, OpInt OP_CHECKMULTISIG]))" and
    k: "\<forall>i < nat M. \<exists>pk.
          [OpInt 1, OpBytes example_key_a, OpBytes example_key_b, OpInt 2,
           OpInt OP_CHECKMULTISIG] ! (1 + i) = OpBytes pk \<and> is_public_key (OpBytes pk) \<and>
          Address_address P (from_public_key
            ([OpInt 1, OpBytes example_key_a, OpBytes example_key_b, OpInt 2,
              OpInt OP_CHECKMULTISIG] ! (1 + i))) =
            Inr (base58_encode P
                   ([0x00] @ hash160 P pk @ take 4 (sha256_2 P ([0x00] @ hash160 P pk))))"
    unfolding Let_def example_multisig_ops by auto
  have "M = 1" "N = 2" using M N by simp_all
  then show "addresses example_multisig_output =
          Inr (map from_public_key [OpBytes example_key_a, OpBytes example_key_b]) \<and>
        Address_address P (from_public_key (OpBytes example_key_a)) =
          Inr (base58_encode P ([0x00] @ hash160 P example_key_a
                 @ take 4 (sha256_2 P ([0x00] @ hash160 P example_key_a))))"
    using a k by (simp add: numeral_2_eq_2)
qed

end
